theory Spec2Isabelle
  imports Main
begin

text \<open>
  A model of \<^verbatim>\<open>src/channels/pusher.ios.ts\<close>, the bridge between a native
  publish/subscribe client and JavaScript callbacks: the classes \<^verbatim>\<open>TNSPusher\<close>,
  \<^verbatim>\<open>TNSPusherChannel\<close>, \<^verbatim>\<open>TNSPusherConnection\<close> and \<^verbatim>\<open>PusherDelegateImpl\<close>.
  Mutation is explicit state passing: a method takes the object and returns it updated.
  A function that translates a method carries the name of its class and the method's.
\<close>

section \<open>Values crossing the bridge\<close>

text \<open>
  A user callback is a JavaScript \<^verbatim>\<open>Function\<close>. The registries are
  \<^verbatim>\<open>Map<Function, string>\<close>, whose keys are compared by reference identity, so a
  callback is modelled by its identity alone. A subscription handle is the string the
  native client returns from a bind call.
\<close>

type_synonym callback = nat
type_synonym handle = string

text \<open>
  The raw payload handed to a native callback is a dictionary that is read with
  \<^verbatim>\<open>objectForKey\<close>; \<open>None\<close> is a null payload.
\<close>

type_synonym NSDictionary = "(string \<times> string) list"
type_synonym payload = "NSDictionary option"

definition objectForKey :: "NSDictionary \<Rightarrow> string \<Rightarrow> string option" where
  "objectForKey d k = map_of d k"

text \<open>What a user callback is called with: a deserialized event or a string literal.\<close>

datatype 'e argument = Deserialized 'e | Literal string

text \<open>
  The parts the source imports from files that are not among the sources, taken as
  parameters: the three constants of \<^verbatim>\<open>InternalPusherEvents\<close> (pusher.common),
  \<^verbatim>\<open>deserialize\<close> (helper), and the string the native client issues as the
  handle of its n-th bind call.
\<close>

record 'e natives =
  Error :: string
  Ping :: string
  Pong :: string
  deserialize :: "payload \<Rightarrow> 'e"
  newId :: "nat \<Rightarrow> handle"

text \<open>JavaScript truthiness of the result of \<^verbatim>\<open>Map.get\<close> on a string-valued map.\<close>

fun truthy :: "string option \<Rightarrow> bool" where
  "truthy None = False"
| "truthy (Some s) = (s \<noteq> [])"

section \<open>The registries: \<^verbatim>\<open>Map<Function, string>\<close>\<close>

text \<open>
  A JavaScript \<^verbatim>\<open>Map\<close> keeps its entries in insertion order; \<^verbatim>\<open>set\<close> on a key
  that is present replaces the value in place, \<^verbatim>\<open>get\<close> of an absent key is
  undefined, \<^verbatim>\<open>delete\<close> removes the entry of the key.
\<close>

type_synonym registry = "(callback \<times> handle) list"

fun Map_set :: "callback \<Rightarrow> handle \<Rightarrow> registry \<Rightarrow> registry" where
  "Map_set k v [] = [(k, v)]"
| "Map_set k v ((k', v') # m) = (if k' = k then (k, v) # m else (k', v') # Map_set k v m)"

fun Map_get :: "callback \<Rightarrow> registry \<Rightarrow> handle option" where
  "Map_get k [] = None"
| "Map_get k ((k', v') # m) = (if k' = k then Some v' else Map_get k m)"

fun Map_delete :: "callback \<Rightarrow> registry \<Rightarrow> registry" where
  "Map_delete k [] = []"
| "Map_delete k ((k', v') # m) = (if k' = k then Map_delete k m else (k', v') # Map_delete k m)"

text \<open>The handles a registry holds for one callback, and the callbacks it has entries for.\<close>

definition handles_of :: "callback \<Rightarrow> registry \<Rightarrow> handle list" where
  "handles_of k m = map snd (filter (\<lambda>e. fst e = k) m)"

definition keys :: "registry \<Rightarrow> callback list" where
  "keys m = map fst m"

section \<open>The closures handed to the native client\<close>

text \<open>
  Three closures are created by the source:
  \<^item> \<open>GlobalClosure callback\<close>, in \<^verbatim>\<open>TNSPusher.bind\<close>:
    \<^verbatim>\<open>(data) => { callback(deserialize(data)); }\<close>
  \<^item> \<open>ChannelClosure\<close>, in \<^verbatim>\<open>TNSPusherChannel.bind\<close>:
    \<^verbatim>\<open>(data) => { console.log('called'); }\<close> (the two lines that would call the
    callback are commented out);
  \<^item> \<open>ConnectionClosure event callback id\<close>, in \<^verbatim>\<open>TNSPusherConnection.bind\<close>, which
    captures the event name, the callback and the variable \<^verbatim>\<open>id\<close> that receives the
    result of the native bind call.
\<close>

datatype closure =
  GlobalClosure callback
| ChannelClosure
| ConnectionClosure string callback handle

text \<open>
  What running a closure does, in program order: calls of user callbacks, lines written
  to the console, and \<^verbatim>\<open>this.events.set(callback, id)\<close> on the connection.
\<close>

datatype 'e effect =
  Invoke callback "'e argument"
| Console string
| EventsSet callback handle

fun closure_body :: "'e natives \<Rightarrow> closure \<Rightarrow> payload \<Rightarrow> 'e effect list" where
  "closure_body N (GlobalClosure callback) data =
     [Invoke callback (Deserialized (deserialize N data))]"
| "closure_body N ChannelClosure data = [Console ''called'']"
| "closure_body N (ConnectionClosure event callback callbackId) None = []"
| "closure_body N (ConnectionClosure event callback callbackId) (Some d) =
     (let nativeEvent = objectForKey d ''event'' in
      (if event = ''error'' \<and> nativeEvent = Some (Error N)
       then [Invoke callback (Deserialized (deserialize N (Some d))), EventsSet callback callbackId]
       else []) @
      (if event = ''ping'' \<and> nativeEvent = Some (Ping N)
       then [Invoke callback (Literal ''ping''), EventsSet callback callbackId]
       else []) @
      (if event = ''pong'' \<and> nativeEvent = Some (Pong N)
       then [Invoke callback (Literal ''pong''), EventsSet callback callbackId]
       else []))"

text \<open>The user callbacks an effect list calls, with their arguments, in order.\<close>

fun invocations :: "'e effect list \<Rightarrow> (callback \<times> 'e argument) list" where
  "invocations [] = []"
| "invocations (Invoke c a # es) = (c, a) # invocations es"
| "invocations (Console s # es) = invocations es"
| "invocations (EventsSet c h # es) = invocations es"

section \<open>The native client\<close>

text \<open>
  Modelled from the spec: the native client (\<^verbatim>\<open>Pusher\<close>, \<^verbatim>\<open>PusherChannel\<close>) is an
  external library and not part of the sources. Section 6 of the specification gives its
  surface: a bind primitive that takes a callback and returns a handle, an unbind
  primitive that takes a handle, and delivery of raw payloads to the callbacks that are
  bound. The model keeps the bound callbacks in the order they were bound, counts the
  handles issued, and logs the calls it receives.
\<close>

datatype native_call =
  BindCall handle
| UnbindCall handle
| ConnectCall
| DisconnectCall
| SubscribeCall string
| UnsubscribeCall string
| UnsubscribeAllCall

datatype OCPusherHost = initWithCluster string | initWithHost string

record PusherClientOptions =
  OcAuthMethod :: nat
  AttemptToReturnJSONObject :: bool
  AutoReconnect :: bool
  OcHost :: "OCPusherHost option"
  Port :: "int option"
  Encrypted :: bool
  ActivityTimeout :: "int option"

record Pusher =
  appKey :: string
  clientOptions :: "PusherClientOptions option"
  callbacks :: "(handle \<times> closure) list"
  issued :: nat
  calls :: "native_call list"

text \<open>
  \<^verbatim>\<open>ios.bind(closure)\<close>: the closure is stored under a new handle, which is returned.
  The closure may mention the variable the handle is assigned to, so it is given as a
  function of the handle.
\<close>

definition Pusher_bind :: "'e natives \<Rightarrow> (handle \<Rightarrow> closure) \<Rightarrow> Pusher \<Rightarrow> handle \<times> Pusher" where
  "Pusher_bind N mk p =
     (let callbackId = newId N (issued p) in
      (callbackId, p\<lparr>callbacks := callbacks p @ [(callbackId, mk callbackId)],
              issued := Suc (issued p),
              calls := calls p @ [BindCall callbackId]\<rparr>))"

definition Pusher_unbindWithCallbackId :: "handle \<Rightarrow> Pusher \<Rightarrow> Pusher" where
  "Pusher_unbindWithCallbackId callbackId p =
     p\<lparr>callbacks := filter (\<lambda>s. fst s \<noteq> callbackId) (callbacks p),
       calls := calls p @ [UnbindCall callbackId]\<rparr>"

text \<open>Delivery of a raw payload: every bound closure runs, in the order of binding.\<close>

definition Pusher_deliver :: "'e natives \<Rightarrow> payload \<Rightarrow> Pusher \<Rightarrow> 'e effect list" where
  "Pusher_deliver N data p = concat (map (\<lambda>s. closure_body N (snd s) data) (callbacks p))"

text \<open>
  The other calls the source makes on the native client are logged; they leave the bound
  callbacks as they are.
\<close>

definition Pusher_connect :: "Pusher \<Rightarrow> Pusher" where
  "Pusher_connect p = p\<lparr>calls := calls p @ [ConnectCall]\<rparr>"

definition Pusher_disconnect :: "Pusher \<Rightarrow> Pusher" where
  "Pusher_disconnect p = p\<lparr>calls := calls p @ [DisconnectCall]\<rparr>"

definition Pusher_unsubscribe :: "string \<Rightarrow> Pusher \<Rightarrow> Pusher" where
  "Pusher_unsubscribe channel p = p\<lparr>calls := calls p @ [UnsubscribeCall channel]\<rparr>"

definition Pusher_unsubscribeAll :: "Pusher \<Rightarrow> Pusher" where
  "Pusher_unsubscribeAll p = p\<lparr>calls := calls p @ [UnsubscribeAllCall]\<rparr>"

text \<open>A native channel keeps its callbacks per event name.\<close>

record PusherChannel =
  channelName :: string
  eventHandlers :: "(string \<times> handle \<times> closure) list"
  channelIssued :: nat
  channelCalls :: "(string \<times> native_call) list"

definition bindWithEventName ::
  "'e natives \<Rightarrow> string \<Rightarrow> closure \<Rightarrow> PusherChannel \<Rightarrow> handle \<times> PusherChannel" where
  "bindWithEventName N event cl c =
     (let callbackId = newId N (channelIssued c) in
      (callbackId, c\<lparr>eventHandlers := eventHandlers c @ [(event, callbackId, cl)],
              channelIssued := Suc (channelIssued c),
              channelCalls := channelCalls c @ [(event, BindCall callbackId)]\<rparr>))"

definition unbindWithEventName :: "string \<Rightarrow> handle \<Rightarrow> PusherChannel \<Rightarrow> PusherChannel" where
  "unbindWithEventName event callbackId c =
     c\<lparr>eventHandlers := filter (\<lambda>s. \<not> (fst s = event \<and> fst (snd s) = callbackId)) (eventHandlers c),
       channelCalls := channelCalls c @ [(event, UnbindCall callbackId)]\<rparr>"

text \<open>
  Subscribing hands out the native channel of that name, here one without callbacks. The
  two member callbacks the source passes are empty functions.
\<close>

definition subscribeWithChannelNameOnMemberAddedOnMemberRemoved ::
  "string \<Rightarrow> Pusher \<Rightarrow> PusherChannel \<times> Pusher" where
  "subscribeWithChannelNameOnMemberAddedOnMemberRemoved channel p =
     (\<lparr>channelName = channel, eventHandlers = [], channelIssued = 0, channelCalls = []\<rparr>,
      p\<lparr>calls := calls p @ [SubscribeCall channel]\<rparr>)"

definition PusherChannel_deliver ::
  "'e natives \<Rightarrow> string \<Rightarrow> payload \<Rightarrow> PusherChannel \<Rightarrow> 'e effect list" where
  "PusherChannel_deliver N event data c =
     concat (map (\<lambda>s. closure_body N (snd (snd s)) data)
                 (filter (\<lambda>s. fst s = event) (eventHandlers c)))"

section \<open>The enumerations\<close>

text \<open>
  \<^verbatim>\<open>ConnectionStatus\<close> (enums) and the native \<^verbatim>\<open>ConnectionState\<close> are declared
  outside the sources. The source names four native values; \<open>Disconnected\<close> is the
  native counterpart of the fifth status, and \<open>Unlisted n\<close> stands for any further
  native value.
\<close>

datatype ConnectionStatus = CONNECTING | CONNECTED | DISCONNECTING | DISCONNECTED | RECONNECTING

datatype ConnectionState =
  Connecting | Connected | Disconnecting | Disconnected | Reconnecting | Unlisted nat

section \<open>\<^verbatim>\<open>TNSPusherConnection\<close>\<close>

text \<open>
  The field \<^verbatim>\<open>ios\<close> of a connection is a reference to the native client of the
  \<^verbatim>\<open>TNSPusher\<close> that created it, so the methods take and return the native client
  together with the connection's own fields.
\<close>

record TNSPusherConnection =
  events :: registry
  priv_state :: "ConnectionStatus option"

definition TNSPusherConnection_constructor :: TNSPusherConnection where
  "TNSPusherConnection_constructor = \<lparr>events = [], priv_state = None\<rparr>"

definition TNSPusherConnection_bind ::
  "'e natives \<Rightarrow> string \<Rightarrow> callback \<Rightarrow> Pusher \<times> TNSPusherConnection
     \<Rightarrow> Pusher \<times> TNSPusherConnection" where
  "TNSPusherConnection_bind N event callback s =
     (let (callbackId, ios') =
            Pusher_bind N (\<lambda>callbackId. ConnectionClosure event callback callbackId) (fst s)
      in (ios', snd s))"

text \<open>
  \<^verbatim>\<open>unbind(event, callback?)\<close>: the callback may be left out; the key is then
  \<^verbatim>\<open>undefined\<close>, which no \<^verbatim>\<open>set\<close> of the source ever stores.
\<close>

definition TNSPusherConnection_unbind ::
  "string \<Rightarrow> callback option \<Rightarrow> Pusher \<times> TNSPusherConnection
     \<Rightarrow> Pusher \<times> TNSPusherConnection" where
  "TNSPusherConnection_unbind event callback s =
     (let callbackId = (case callback of None \<Rightarrow> None
                        | Some c \<Rightarrow> Map_get c (events (snd s)))
      in if truthy callbackId
         then (Pusher_unbindWithCallbackId (the callbackId) (fst s),
               (snd s)\<lparr>events := Map_delete (the callback) (events (snd s))\<rparr>)
         else s)"

definition get_state :: "TNSPusherConnection \<Rightarrow> ConnectionStatus option" where
  "get_state this = priv_state this"

text \<open>
  The native client delivers a raw payload to its global callbacks; the
  \<^verbatim>\<open>this.events.set\<close> of the connection closures that fire is carried out on the
  connection, and the calls of user callbacks are returned.
\<close>

fun apply_effect :: "'e effect \<Rightarrow> TNSPusherConnection \<Rightarrow> TNSPusherConnection" where
  "apply_effect (EventsSet c h) this = this\<lparr>events := Map_set c h (events this)\<rparr>"
| "apply_effect (Invoke c a) this = this"
| "apply_effect (Console l) this = this"

definition receive ::
  "'e natives \<Rightarrow> payload \<Rightarrow> Pusher \<times> TNSPusherConnection
     \<Rightarrow> (Pusher \<times> TNSPusherConnection) \<times> (callback \<times> 'e argument) list" where
  "receive N data s =
     (let es = Pusher_deliver N data (fst s)
      in ((fst s, fold apply_effect es (snd s)), invocations es))"

section \<open>\<^verbatim>\<open>TNSPusher\<close>\<close>

text \<open>
  The \<^verbatim>\<open>Options\<close> interface is not among the sources; its fields are the ones the
  constructor reads, each of which may be absent.
\<close>

record Options =
  cluster :: "string option"
  host :: "string option"
  port :: "int option"
  encrypted :: "bool option"
  autoReconnect :: "bool option"
  activityTimeout :: "int option"

text \<open>\<^verbatim>\<open>!!x\<close> for an optional boolean.\<close>

fun double_not :: "bool option \<Rightarrow> bool" where
  "double_not None = False"
| "double_not (Some b) = b"

record TNSPusher =
  ios :: Pusher
  globalEvents :: registry
  priv_connection :: "TNSPusherConnection option"

definition initWithAppKeyOptions :: "string \<Rightarrow> PusherClientOptions \<Rightarrow> Pusher" where
  "initWithAppKeyOptions apiKey opts =
     \<lparr>appKey = apiKey, clientOptions = Some opts, callbacks = [], issued = 0, calls = []\<rparr>"

definition initWithKey :: "string \<Rightarrow> Pusher" where
  "initWithKey apiKey =
     \<lparr>appKey = apiKey, clientOptions = None, callbacks = [], issued = 0, calls = []\<rparr>"

text \<open>
  The constructor. \<^verbatim>\<open>if (options.cluster)\<close> and \<^verbatim>\<open>if (options.host)\<close> test
  truthiness: the field is present and not the empty string.
\<close>

definition TNSPusher_constructor :: "string \<Rightarrow> Options option \<Rightarrow> TNSPusher" where
  "TNSPusher_constructor apiKey options =
     \<lparr>ios =
        (case options of
           Some opt \<Rightarrow>
             (let authEndpoint = 4;
                  host0 = None;
                  host1 = (if truthy (cluster opt)
                           then Some (initWithCluster (the (cluster opt))) else host0);
                  host2 = (if truthy (host opt)
                           then Some (initWithHost (the (host opt))) else host1);
                  opts = \<lparr>OcAuthMethod = authEndpoint,
                          AttemptToReturnJSONObject = False,
                          AutoReconnect = double_not (autoReconnect opt),
                          OcHost = host2,
                          Port = port opt,
                          Encrypted = double_not (encrypted opt),
                          ActivityTimeout = activityTimeout opt\<rparr>
              in initWithAppKeyOptions apiKey opts)
         | None \<Rightarrow> initWithKey apiKey),
      globalEvents = [],
      priv_connection = None\<rparr>"

text \<open>The getter \<^verbatim>\<open>connection\<close>: the facade is created on first use and kept.\<close>

definition get_connection :: "TNSPusher \<Rightarrow> TNSPusherConnection \<times> TNSPusher" where
  "get_connection this =
     (case priv_connection this of
        None \<Rightarrow> (TNSPusherConnection_constructor,
                 this\<lparr>priv_connection := Some TNSPusherConnection_constructor\<rparr>)
      | Some c \<Rightarrow> (c, this))"

definition TNSPusher_bind :: "'e natives \<Rightarrow> callback \<Rightarrow> TNSPusher \<Rightarrow> TNSPusher" where
  "TNSPusher_bind N callback this =
     (let (callbackId, ios') = Pusher_bind N (\<lambda>_. GlobalClosure callback) (ios this)
      in this\<lparr>ios := ios', globalEvents := Map_set callback callbackId (globalEvents this)\<rparr>)"

definition TNSPusher_unbind :: "callback \<Rightarrow> TNSPusher \<Rightarrow> TNSPusher" where
  "TNSPusher_unbind callback this =
     (let callbackId = Map_get callback (globalEvents this)
      in if truthy callbackId
         then this\<lparr>ios := Pusher_unbindWithCallbackId (the callbackId) (ios this),
                   globalEvents := Map_delete callback (globalEvents this)\<rparr>
         else this)"

section \<open>\<^verbatim>\<open>TNSPusherChannel\<close>\<close>

record TNSPusherChannel =
  channel_ios :: PusherChannel
  channelEvents :: registry

definition TNSPusherChannel_constructor :: "PusherChannel \<Rightarrow> TNSPusherChannel" where
  "TNSPusherChannel_constructor inst = \<lparr>channel_ios = inst, channelEvents = []\<rparr>"

definition TNSPusher_subscribe :: "string \<Rightarrow> TNSPusher \<Rightarrow> TNSPusherChannel \<times> TNSPusher" where
  "TNSPusher_subscribe event this =
     (let (channel, ios') = subscribeWithChannelNameOnMemberAddedOnMemberRemoved event (ios this)
      in (TNSPusherChannel_constructor channel, this\<lparr>ios := ios'\<rparr>))"

definition TNSPusher_connect :: "TNSPusher \<Rightarrow> TNSPusher" where
  "TNSPusher_connect this = this\<lparr>ios := Pusher_connect (ios this)\<rparr>"

definition TNSPusher_disconnect :: "TNSPusher \<Rightarrow> TNSPusher" where
  "TNSPusher_disconnect this = this\<lparr>ios := Pusher_disconnect (ios this)\<rparr>"

definition TNSPusher_unsubscribeAll :: "TNSPusher \<Rightarrow> TNSPusher" where
  "TNSPusher_unsubscribeAll this = this\<lparr>ios := Pusher_unsubscribeAll (ios this)\<rparr>"

definition TNSPusher_unsubscribe :: "string \<Rightarrow> TNSPusher \<Rightarrow> TNSPusher" where
  "TNSPusher_unsubscribe channel this = this\<lparr>ios := Pusher_unsubscribe channel (ios this)\<rparr>"

definition TNSPusherChannel_bind ::
  "'e natives \<Rightarrow> string \<Rightarrow> callback \<Rightarrow> TNSPusherChannel \<Rightarrow> TNSPusherChannel" where
  "TNSPusherChannel_bind N event callback this =
     (let (ret, ios') = bindWithEventName N event ChannelClosure (channel_ios this)
      in this\<lparr>channel_ios := ios', channelEvents := Map_set callback ret (channelEvents this)\<rparr>)"

definition TNSPusherChannel_unbind ::
  "string \<Rightarrow> callback \<Rightarrow> TNSPusherChannel \<Rightarrow> TNSPusherChannel" where
  "TNSPusherChannel_unbind event callback this =
     (let callbackId = Map_get callback (channelEvents this)
      in if truthy callbackId
         then this\<lparr>channel_ios := unbindWithEventName event (the callbackId) (channel_ios this),
                   channelEvents := Map_delete callback (channelEvents this)\<rparr>
         else this)"

section \<open>\<^verbatim>\<open>PusherDelegateImpl\<close>\<close>

fun getState :: "ConnectionState \<Rightarrow> ConnectionStatus" where
  "getState Connected = CONNECTED"
| "getState Connecting = CONNECTING"
| "getState Disconnecting = DISCONNECTING"
| "getState Reconnecting = RECONNECTING"
| "getState _ = DISCONNECTED"

text \<open>
  The delegate holds a weak reference to its owner. Each notification takes what
  \<^verbatim>\<open>this._owner.get()\<close> yields at that moment, the owner or nothing, and returns it as
  the notification leaves it.
\<close>

definition changedConnectionStateFromTo ::
  "ConnectionState \<Rightarrow> ConnectionState \<Rightarrow> TNSPusher option \<Rightarrow> TNSPusher option" where
  "changedConnectionStateFromTo old new weak =
     (case weak of
        None \<Rightarrow> None
      | Some owner \<Rightarrow>
          (let (c, owner') = get_connection owner
           in Some (owner'\<lparr>priv_connection := Some (c\<lparr>priv_state := Some (getState new)\<rparr>)\<rparr>)))"

definition debugLogWithMessage :: "string \<Rightarrow> TNSPusher option \<Rightarrow> TNSPusher option" where
  "debugLogWithMessage message weak = weak"

definition failedToSubscribeToChannelWithNameResponseDataError ::
  "string \<Rightarrow> string \<Rightarrow> string \<Rightarrow> string \<Rightarrow> TNSPusher option \<Rightarrow> TNSPusher option" where
  "failedToSubscribeToChannelWithNameResponseDataError name response data err weak = weak"

definition subscribedToChannelWithName :: "string \<Rightarrow> TNSPusher option \<Rightarrow> TNSPusher option" where
  "subscribedToChannelWithName name weak = weak"

section \<open>Sequences of calls\<close>

text \<open>
  A sequence of \<^verbatim>\<open>connection.bind(event, callback)\<close> calls, and the subscriptions such a
  sequence installs when the native client has issued \<open>n\<close> handles before it.
\<close>

definition connection_binds ::
  "'e natives \<Rightarrow> (string \<times> callback) list \<Rightarrow> Pusher \<times> TNSPusherConnection
     \<Rightarrow> Pusher \<times> TNSPusherConnection" where
  "connection_binds N bs s = fold (\<lambda>b. TNSPusherConnection_bind N (fst b) (snd b)) bs s"

definition installed :: "'e natives \<Rightarrow> nat \<Rightarrow> (string \<times> callback) list \<Rightarrow> (handle \<times> closure) list" where
  "installed N n bs =
     map (\<lambda>ib. (newId N (fst ib), ConnectionClosure (fst (snd ib)) (snd (snd ib)) (newId N (fst ib))))
         (enumerate n bs)"

text \<open>
  Calls made through the client: \<^verbatim>\<open>pusher.connection.bind(...)\<close> reads the getter and
  runs the method on the facade and the client's native object. A payload delivered while
  no facade exists has no connection to write to.
\<close>

definition on_connection ::
  "(Pusher \<times> TNSPusherConnection \<Rightarrow> Pusher \<times> TNSPusherConnection) \<Rightarrow> TNSPusher \<Rightarrow> TNSPusher" where
  "on_connection f this =
     (let (c, this') = get_connection this;
          (ios', c') = f (ios this', c)
      in this'\<lparr>ios := ios', priv_connection := Some c'\<rparr>)"

definition TNSPusher_receive ::
  "'e natives \<Rightarrow> payload \<Rightarrow> TNSPusher \<Rightarrow> TNSPusher \<times> (callback \<times> 'e argument) list" where
  "TNSPusher_receive N data this =
     (case priv_connection this of
        None \<Rightarrow> (this, invocations (Pusher_deliver N data (ios this)))
      | Some c \<Rightarrow>
          (let r = receive N data (ios this, c)
           in (this\<lparr>priv_connection := Some (snd (fst r))\<rparr>, snd r)))"

datatype operation =
  Bind callback
| Unbind callback
| ConnectionBind string callback
| ConnectionUnbind string "callback option"
| Receive payload
| StateChange ConnectionState ConnectionState
| Connect
| Disconnect
| Subscribe string
| Unsubscribe string
| UnsubscribeAll

fun step :: "'e natives \<Rightarrow> operation \<Rightarrow> TNSPusher \<Rightarrow> TNSPusher" where
  "step N (Bind c) this = TNSPusher_bind N c this"
| "step N (Unbind c) this = TNSPusher_unbind c this"
| "step N (ConnectionBind e c) this = on_connection (TNSPusherConnection_bind N e c) this"
| "step N (ConnectionUnbind e c) this = on_connection (TNSPusherConnection_unbind e c) this"
| "step N (Receive data) this = fst (TNSPusher_receive N data this)"
| "step N (StateChange old new) this = the (changedConnectionStateFromTo old new (Some this))"
| "step N Connect this = TNSPusher_connect this"
| "step N Disconnect this = TNSPusher_disconnect this"
| "step N (Subscribe channel) this = snd (TNSPusher_subscribe channel this)"
| "step N (Unsubscribe channel) this = TNSPusher_unsubscribe channel this"
| "step N UnsubscribeAll this = TNSPusher_unsubscribeAll this"

definition run :: "'e natives \<Rightarrow> operation list \<Rightarrow> TNSPusher \<Rightarrow> TNSPusher" where
  "run N ops this = fold (step N) ops this"

definition connection_events :: "TNSPusher \<Rightarrow> registry" where
  "connection_events this = (case priv_connection this of None \<Rightarrow> [] | Some c \<Rightarrow> events c)"

fun captured :: "closure \<Rightarrow> handle list" where
  "captured (ConnectionClosure e c h) = [h]"
| "captured _ = []"

text \<open>An instance of the parameters, for evaluating the model on concrete calls.\<close>

definition example_natives :: "payload natives" where
  "example_natives =
     \<lparr>Error = ''pusher:error'', Ping = ''pusher:ping'', Pong = ''pusher:pong'',
      deserialize = (\<lambda>data. data), newId = (\<lambda>n. replicate (Suc n) CHR ''h'')\<rparr>"

section \<open>Handles known to a client\<close>

text \<open>
  The handles an unbind call can be made with are those a registry holds and those a
  connection closure has captured and may write to the connection's registry. A client is
  well formed when every handle it has seen was issued by its native client; a handle is
  forgotten when it was issued, no registry or closure refers to it, and no unbind call
  was made with it.
\<close>

definition referenced :: "TNSPusher \<Rightarrow> handle list" where
  "referenced this =
     map snd (globalEvents this) @ map snd (connection_events this)
     @ concat (map (\<lambda>s. captured (snd s)) (callbacks (ios this)))"

fun unbound :: "native_call list \<Rightarrow> handle list" where
  "unbound [] = []"
| "unbound (UnbindCall h # cs) = h # unbound cs"
| "unbound (c # cs) = unbound cs"

definition known :: "TNSPusher \<Rightarrow> handle list" where
  "known this = referenced this @ map fst (callbacks (ios this)) @ unbound (calls (ios this))"

definition well_formed :: "'e natives \<Rightarrow> TNSPusher \<Rightarrow> bool" where
  "well_formed N this = (set (known this) \<subseteq> newId N ` {..<issued (ios this)})"

definition forgotten :: "'e natives \<Rightarrow> handle \<Rightarrow> TNSPusher \<Rightarrow> bool" where
  "forgotten N h this =
     (h \<notin> set (referenced this) \<and> h \<notin> set (unbound (calls (ios this)))
      \<and> h \<in> newId N ` {..<issued (ios this)})"

datatype channel_operation = ChannelBind string callback | ChannelUnbind string callback

fun channel_step :: "'e natives \<Rightarrow> channel_operation \<Rightarrow> TNSPusherChannel \<Rightarrow> TNSPusherChannel" where
  "channel_step N (ChannelBind e c) this = TNSPusherChannel_bind N e c this"
| "channel_step N (ChannelUnbind e c) this = TNSPusherChannel_unbind e c this"

definition channel_run ::
  "'e natives \<Rightarrow> channel_operation list \<Rightarrow> TNSPusherChannel \<Rightarrow> TNSPusherChannel" where
  "channel_run N ops this = fold (channel_step N) ops this"

section \<open>Registry lemmas\<close>

lemma keys_simps: "keys [] = []" "keys ((a, b) # m) = a # keys m"
  by (simp_all add: keys_def)

lemma Map_get_None_iff: "Map_get k m = None \<longleftrightarrow> k \<notin> set (keys m)"
  by (induction m) (auto simp: keys_simps split: if_splits)

lemma Map_get_delete: "Map_get k (Map_delete k m) = None"
  by (induction m) auto

lemma Map_get_set: "Map_get k (Map_set k v m) = Some v"
  by (induction m) auto

lemma keys_Map_set: "keys (Map_set k v m) = (if k \<in> set (keys m) then keys m else keys m @ [k])"
  by (induction m) (auto simp: keys_simps)

lemma distinct_Map_set: "distinct (keys m) \<Longrightarrow> distinct (keys (Map_set k v m))"
  by (simp add: keys_Map_set)

lemma keys_Map_delete: "keys (Map_delete k m) = removeAll k (keys m)"
  by (induction m) (auto simp: keys_simps)

lemma distinct_Map_delete: "distinct (keys m) \<Longrightarrow> distinct (keys (Map_delete k m))"
  by (simp add: keys_Map_delete distinct_removeAll)

lemma length_Map_set: "length (Map_set k v m) = (if k \<in> set (keys m) then length m else Suc (length m))"
  by (induction m) (auto simp: keys_simps)

lemma in_Map_set: "x \<in> set (Map_set k v m) \<Longrightarrow> x = (k, v) \<or> x \<in> set m"
  by (induction m) (auto split: if_splits)

lemma in_Map_delete: "x \<in> set (Map_delete k m) \<Longrightarrow> x \<in> set m"
  by (induction m) (auto split: if_splits)

lemma Map_get_in: "Map_get k m = Some v \<Longrightarrow> (k, v) \<in> set m"
  by (induction m) (auto split: if_splits)

lemma handles_of_simps:
  "handles_of k [] = []"
  "handles_of k ((a, b) # m) = (if a = k then b # handles_of k m else handles_of k m)"
  by (simp_all add: handles_of_def)

lemma handles_of_absent: "k \<notin> set (keys m) \<Longrightarrow> handles_of k m = []"
  by (induction m) (auto simp: keys_simps handles_of_simps)

lemma handles_of_distinct: "distinct (keys m) \<Longrightarrow> length (handles_of k m) \<le> 1"
  by (induction m) (auto simp: keys_simps handles_of_simps handles_of_absent)

lemma handles_of_Map_get:
  "distinct (keys m) \<Longrightarrow> handles_of k m = (case Map_get k m of None \<Rightarrow> [] | Some h \<Rightarrow> [h])"
  by (induction m) (auto simp: keys_simps handles_of_simps handles_of_absent)

lemma Pusher_bind_simps:
  "fst (Pusher_bind N mk p) = newId N (issued p)"
  "callbacks (snd (Pusher_bind N mk p)) = callbacks p @ [(newId N (issued p), mk (newId N (issued p)))]"
  "issued (snd (Pusher_bind N mk p)) = Suc (issued p)"
  "calls (snd (Pusher_bind N mk p)) = calls p @ [BindCall (newId N (issued p))]"
  by (simp_all add: Pusher_bind_def Let_def)

lemma connection_bind_simps:
  "callbacks (fst (TNSPusherConnection_bind N e c s)) =
     callbacks (fst s) @ [(newId N (issued (fst s)), ConnectionClosure e c (newId N (issued (fst s))))]"
  "issued (fst (TNSPusherConnection_bind N e c s)) = Suc (issued (fst s))"
  "calls (fst (TNSPusherConnection_bind N e c s)) = calls (fst s) @ [BindCall (newId N (issued (fst s)))]"
  "snd (TNSPusherConnection_bind N e c s) = snd s"
  by (simp_all add: TNSPusherConnection_bind_def Pusher_bind_def Let_def)

section \<open>Binding on the connection\<close>

lemma connection_binds_callbacks:
  "callbacks (fst (connection_binds N bs s)) = callbacks (fst s) @ installed N (issued (fst s)) bs
   \<and> issued (fst (connection_binds N bs s)) = issued (fst s) + length bs
   \<and> snd (connection_binds N bs s) = snd s"
proof (induction bs arbitrary: s)
  case Nil
  then show ?case by (simp add: connection_binds_def installed_def)
next
  case (Cons b bs)
  have step: "connection_binds N (b # bs) s
        = connection_binds N bs (TNSPusherConnection_bind N (fst b) (snd b) s)"
    by (simp add: connection_binds_def)
  show ?case
    unfolding step using Cons.IH[of "TNSPusherConnection_bind N (fst b) (snd b) s"]
    by (simp add: connection_bind_simps installed_def)
qed


lemma Pusher_deliver_append:
  "callbacks p' = callbacks p @ xs \<Longrightarrow>
   Pusher_deliver N data p' = Pusher_deliver N data p @ concat (map (\<lambda>s. closure_body N (snd s) data) xs)"
  by (simp add: Pusher_deliver_def)

lemma invocations_append: "invocations (xs @ ys) = invocations xs @ invocations ys"
  by (induction xs rule: invocations.induct) simp_all

lemma invocations_concat: "invocations (concat xss) = concat (map invocations xss)"
  by (induction xss) (simp_all add: invocations_append)

lemma installed_simps:
  "installed N n [] = []"
  "installed N n (b # bs) =
     (newId N n, ConnectionClosure (fst b) (snd b) (newId N n)) # installed N (Suc n) bs"
  by (simp_all add: installed_def)

lemma ping_installed:
  assumes "objectForKey d ''event'' = Some (Ping N)" "Ping N \<noteq> Error N" "Ping N \<noteq> Pong N"
  shows "invocations (concat (map (\<lambda>s. closure_body N (snd s) (Some d)) (installed N n bs)))
         = map (\<lambda>b. (snd b, Literal ''ping'')) (filter (\<lambda>b. fst b = ''ping'') bs)"
  using assms by (induction bs arbitrary: n) (auto simp: installed_simps invocations_append)

lemma error_installed:
  assumes "objectForKey d ''event'' = Some (Error N)" "Error N \<noteq> Ping N" "Error N \<noteq> Pong N"
  shows "invocations (concat (map (\<lambda>s. closure_body N (snd s) (Some d)) (installed N n bs)))
         = map (\<lambda>b. (snd b, Deserialized (deserialize N (Some d)))) (filter (\<lambda>b. fst b = ''error'') bs)"
  using assms by (induction bs arbitrary: n) (auto simp: installed_simps invocations_append)

lemma installed_length: "length (installed N n bs) = length bs"
  by (simp add: installed_def)

lemma installed_nth:
  "i < length bs \<Longrightarrow>
   installed N n bs ! i
     = (newId N (n + i), ConnectionClosure (fst (bs ! i)) (snd (bs ! i)) (newId N (n + i)))"
  by (simp add: installed_def nth_enumerate_eq)

lemma installed_handles: "map fst (installed N n bs) = map (newId N) [n ..< n + length bs]"
  by (induction bs arbitrary: n) (simp_all add: installed_simps upt_rec)

lemma inj_example: "inj (newId example_natives)"
proof (rule injI)
  fix x y assume "newId example_natives x = newId example_natives y"
  then have "length (replicate (Suc x) CHR ''h'') = length (replicate (Suc y) CHR ''h'')"
    by (simp add: example_natives_def)
  then show "x = y" by simp
qed

section \<open>Demultiplexing of the internal events\<close>

text \<open>
  C3: a payload whose \<^verbatim>\<open>event\<close> entry is the internal ping value is delivered to a
  connection on which the callbacks \<open>bs\<close> were bound (in a state \<open>s\<close> whose earlier
  subscriptions behave as they did). The callbacks invoked by the new subscriptions are
  exactly those bound for \<^verbatim>\<open>'ping'\<close>, once per binding, each with the literal
  \<^verbatim>\<open>"ping"\<close>; a binding for \<^verbatim>\<open>'pong'\<close> or \<^verbatim>\<open>'error'\<close> invokes nothing. When the
  entry is the internal error value, exactly the callbacks bound for \<^verbatim>\<open>'error'\<close> are
  invoked, each with the deserialized payload. The three internal values are assumed to
  be different from one another.
\<close>

theorem connection_demultiplexing:
  assumes "Ping N \<noteq> Error N" and "Ping N \<noteq> Pong N" and "Error N \<noteq> Pong N"
  shows "(objectForKey d ''event'' = Some (Ping N) \<longrightarrow>
            snd (receive N (Some d) (connection_binds N bs s))
              = invocations (Pusher_deliver N (Some d) (fst s))
                @ map (\<lambda>b. (snd b, Literal ''ping'')) (filter (\<lambda>b. fst b = ''ping'') bs)) \<and>
         (objectForKey d ''event'' = Some (Error N) \<longrightarrow>
            snd (receive N (Some d) (connection_binds N bs s))
              = invocations (Pusher_deliver N (Some d) (fst s))
                @ map (\<lambda>b. (snd b, Deserialized (deserialize N (Some d))))
                      (filter (\<lambda>b. fst b = ''error'') bs))"
proof -
  have cb: "callbacks (fst (connection_binds N bs s)) = callbacks (fst s) @ installed N (issued (fst s)) bs"
    using connection_binds_callbacks by blast
  have r: "snd (receive N (Some d) (connection_binds N bs s))
        = invocations (Pusher_deliver N (Some d) (fst s))
          @ invocations (concat (map (\<lambda>s. closure_body N (snd s) (Some d)) (installed N (issued (fst s)) bs)))"
    by (simp add: receive_def Let_def Pusher_deliver_append[OF cb] invocations_append)
  show ?thesis
    using assms by (auto simp: r ping_installed error_installed)
qed

theorem connection_demultiplexing_witness:
  "snd (receive example_natives (Some [(''event'', ''pusher:ping'')])
         (connection_binds example_natives [(''ping'', 1), (''pong'', 2), (''error'', 3)]
            (initWithKey ''key'', TNSPusherConnection_constructor)))
     = [(1, Literal ''ping'')] \<and>
   snd (receive example_natives (Some [(''event'', ''pusher:error'')])
         (connection_binds example_natives [(''ping'', 1), (''pong'', 2), (''error'', 3)]
            (initWithKey ''key'', TNSPusherConnection_constructor)))
     = [(3, Deserialized (Some [(''event'', ''pusher:error'')]))]"
  using connection_demultiplexing [of example_natives "[(''event'', ''pusher:ping'')]"
      "[(''ping'', 1), (''pong'', 2), (''error'', 3)]" "(initWithKey ''key'', TNSPusherConnection_constructor)"]
    connection_demultiplexing [of example_natives "[(''event'', ''pusher:error'')]"
      "[(''ping'', 1), (''pong'', 2), (''error'', 3)]" "(initWithKey ''key'', TNSPusherConnection_constructor)"]
  by (simp add: example_natives_def objectForKey_def Pusher_deliver_def initWithKey_def)


section \<open>One subscription per bind call\<close>

text \<open>
  C7: every call of \<^verbatim>\<open>connection.bind\<close> appends one subscription of its own to the
  native client: a new handle and a closure that holds the event name and callback of
  that call. A sequence of N calls appends N subscriptions, the i-th made of the i-th
  call's event and callback; their handles are pairwise different when the native client
  never issues a handle twice. Each closure calls its callback only for the internal
  value that belongs to its own event name.
\<close>

theorem connection_bind_own_subscription:
  "callbacks (fst (TNSPusherConnection_bind N e c s))
     = callbacks (fst s)
       @ [(newId N (issued (fst s)), ConnectionClosure e c (newId N (issued (fst s))))] \<and>
   length (callbacks (fst (connection_binds N bs s))) = length (callbacks (fst s)) + length bs \<and>
   (\<forall>i < length bs.
      callbacks (fst (connection_binds N bs s)) ! (length (callbacks (fst s)) + i)
        = (newId N (issued (fst s) + i),
           ConnectionClosure (fst (bs ! i)) (snd (bs ! i)) (newId N (issued (fst s) + i)))) \<and>
   (inj (newId N) \<longrightarrow>
      distinct (map fst (drop (length (callbacks (fst s)))
                              (callbacks (fst (connection_binds N bs s)))))) \<and>
   (invocations (closure_body N (ConnectionClosure e c h) (Some d)) \<noteq> [] \<longleftrightarrow>
      (e = ''error'' \<and> objectForKey d ''event'' = Some (Error N)) \<or>
      (e = ''ping'' \<and> objectForKey d ''event'' = Some (Ping N)) \<or>
      (e = ''pong'' \<and> objectForKey d ''event'' = Some (Pong N)))"
proof -
  have cb: "callbacks (fst (connection_binds N bs s)) = callbacks (fst s) @ installed N (issued (fst s)) bs"
    using connection_binds_callbacks by blast
  have a: "callbacks (fst (TNSPusherConnection_bind N e c s))
     = callbacks (fst s)
       @ [(newId N (issued (fst s)), ConnectionClosure e c (newId N (issued (fst s))))]"
    by (rule connection_bind_simps)
  have b: "length (callbacks (fst (connection_binds N bs s))) = length (callbacks (fst s)) + length bs"
    by (simp add: cb installed_length)
  have c: "\<forall>i < length bs.
      callbacks (fst (connection_binds N bs s)) ! (length (callbacks (fst s)) + i)
        = (newId N (issued (fst s) + i),
           ConnectionClosure (fst (bs ! i)) (snd (bs ! i)) (newId N (issued (fst s) + i)))"
    by (simp add: cb nth_append installed_nth)
  have d: "inj (newId N) \<longrightarrow>
      distinct (map fst (drop (length (callbacks (fst s)))
                              (callbacks (fst (connection_binds N bs s)))))"
    by (auto simp: cb installed_handles distinct_map intro: inj_on_subset)
  have e: "invocations (closure_body N (ConnectionClosure e c h) (Some d)) \<noteq> [] \<longleftrightarrow>
      (e = ''error'' \<and> objectForKey d ''event'' = Some (Error N)) \<or>
      (e = ''ping'' \<and> objectForKey d ''event'' = Some (Ping N)) \<or>
      (e = ''pong'' \<and> objectForKey d ''event'' = Some (Pong N))"
    by (auto simp: Let_def)
  from a b c d e show ?thesis by blast
qed

theorem connection_bind_own_subscription_witness:
  "callbacks (fst (connection_binds example_natives [(''error'', 1), (''ping'', 2), (''pong'', 3)]
       (initWithKey ''key'', TNSPusherConnection_constructor)))
     = [(''h'', ConnectionClosure ''error'' 1 ''h''),
        (''hh'', ConnectionClosure ''ping'' 2 ''hh''),
        (''hhh'', ConnectionClosure ''pong'' 3 ''hhh'')] \<and>
   inj (newId example_natives) \<and>
   distinct (map fst (callbacks (fst (connection_binds example_natives
       [(''error'', 1), (''ping'', 2), (''pong'', 3)]
       (initWithKey ''key'', TNSPusherConnection_constructor)))))"
  using connection_bind_own_subscription [of example_natives "''ping''" 2
      "(initWithKey ''key'', TNSPusherConnection_constructor)"
      "[(''error'', 1), (''ping'', 2), (''pong'', 3)]" "''hh''" "[(''event'', ''pusher:ping'')]"]
    inj_example
  by (simp add: connection_binds_def TNSPusherConnection_bind_def Pusher_bind_def
      initWithKey_def example_natives_def Let_def)

section \<open>Operations through the client keep handles in order\<close>

lemma unbound_append: "unbound (xs @ ys) = unbound xs @ unbound ys"
  by (induction xs rule: unbound.induct) simp_all

lemma in_Map_delete_key: "x \<in> set (Map_delete k m) \<Longrightarrow> fst x \<noteq> k"
  by (induction m) (auto split: if_splits)

lemma fold_apply_effect_state: "priv_state (fold apply_effect es c) = priv_state c"
  by (induction es arbitrary: c rule: invocations.induct) simp_all

lemma fold_apply_effect_in:
  "x \<in> set (events (fold apply_effect es c)) \<Longrightarrow>
   x \<in> set (events c) \<or> EventsSet (fst x) (snd x) \<in> set es"
proof (induction es arbitrary: c rule: invocations.induct)
  case 1
  then show ?case by simp
next
  case (2 c' a es)
  then show ?case by auto
next
  case (3 l es)
  then show ?case by auto
next
  case (4 c' h es)
  from "4.prems" have "x \<in> set (events (fold apply_effect es (apply_effect (EventsSet c' h) c)))"
    by simp
  from "4.IH"[OF this]
  have "x \<in> set (events (apply_effect (EventsSet c' h) c)) \<or> EventsSet (fst x) (snd x) \<in> set es" .
  then show ?case
  proof
    assume "x \<in> set (events (apply_effect (EventsSet c' h) c))"
    then have "x = (c', h) \<or> x \<in> set (events c)" by (auto dest: in_Map_set)
    then show ?thesis by auto
  next
    assume "EventsSet (fst x) (snd x) \<in> set es"
    then show ?thesis by simp
  qed
qed

lemma fold_apply_effect_distinct:
  "distinct (keys (events c)) \<Longrightarrow> distinct (keys (events (fold apply_effect es c)))"
  by (induction es arbitrary: c rule: invocations.induct) (simp_all add: distinct_Map_set)

lemma closure_body_EventsSet:
  "EventsSet c h \<in> set (closure_body N cl data) \<Longrightarrow> h \<in> set (captured cl)"
  by (cases cl; cases data) (auto simp: Let_def split: if_splits)

lemma Pusher_deliver_EventsSet:
  "EventsSet c h \<in> set (Pusher_deliver N data p) \<Longrightarrow>
   h \<in> set (concat (map (\<lambda>s. captured (snd s)) (callbacks p)))"
  by (auto simp: Pusher_deliver_def dest: closure_body_EventsSet)


lemma get_connection_simps:
  "events (fst (get_connection this)) = connection_events this"
  "ios (snd (get_connection this)) = ios this"
  "globalEvents (snd (get_connection this)) = globalEvents this"
  "connection_events (snd (get_connection this)) = connection_events this"
  "priv_connection (snd (get_connection this)) = Some (fst (get_connection this))"
  by (simp_all add: get_connection_def connection_events_def TNSPusherConnection_constructor_def
      split: option.split)

lemma on_connection_simps:
  "ios (on_connection f this) = fst (f (ios this, fst (get_connection this)))"
  "globalEvents (on_connection f this) = globalEvents this"
  "connection_events (on_connection f this) = events (snd (f (ios this, fst (get_connection this))))"
  by (simp_all add: on_connection_def Let_def case_prod_beta connection_events_def get_connection_simps)

lemma TNSPusher_bind_simps:
  "callbacks (ios (TNSPusher_bind N c this))
     = callbacks (ios this) @ [(newId N (issued (ios this)), GlobalClosure c)]"
  "issued (ios (TNSPusher_bind N c this)) = Suc (issued (ios this))"
  "calls (ios (TNSPusher_bind N c this)) = calls (ios this) @ [BindCall (newId N (issued (ios this)))]"
  "globalEvents (TNSPusher_bind N c this) = Map_set c (newId N (issued (ios this))) (globalEvents this)"
  "connection_events (TNSPusher_bind N c this) = connection_events this"
  "priv_connection (TNSPusher_bind N c this) = priv_connection this"
  by (simp_all add: TNSPusher_bind_def Pusher_bind_def Let_def connection_events_def)

lemma TNSPusher_unbind_cases:
  "(\<not> truthy (Map_get c (globalEvents this)) \<and> TNSPusher_unbind c this = this) \<or>
   (\<exists>h. Map_get c (globalEvents this) = Some h \<and> h \<noteq> [] \<and>
        callbacks (ios (TNSPusher_unbind c this)) = filter (\<lambda>s. fst s \<noteq> h) (callbacks (ios this)) \<and>
        issued (ios (TNSPusher_unbind c this)) = issued (ios this) \<and>
        calls (ios (TNSPusher_unbind c this)) = calls (ios this) @ [UnbindCall h] \<and>
        globalEvents (TNSPusher_unbind c this) = Map_delete c (globalEvents this) \<and>
        connection_events (TNSPusher_unbind c this) = connection_events this \<and>
        priv_connection (TNSPusher_unbind c this) = priv_connection this)"
  by (cases "Map_get c (globalEvents this)")
     (auto simp: TNSPusher_unbind_def Pusher_unbindWithCallbackId_def Let_def connection_events_def)

lemma connection_unbind_cases:
  "(TNSPusherConnection_unbind e co s = s) \<or>
   (\<exists>c h. co = Some c \<and> Map_get c (events (snd s)) = Some h \<and> h \<noteq> [] \<and>
        callbacks (fst (TNSPusherConnection_unbind e co s)) = filter (\<lambda>s. fst s \<noteq> h) (callbacks (fst s)) \<and>
        issued (fst (TNSPusherConnection_unbind e co s)) = issued (fst s) \<and>
        calls (fst (TNSPusherConnection_unbind e co s)) = calls (fst s) @ [UnbindCall h] \<and>
        events (snd (TNSPusherConnection_unbind e co s)) = Map_delete c (events (snd s)) \<and>
        priv_state (snd (TNSPusherConnection_unbind e co s)) = priv_state (snd s))"
  by (cases co; cases "Map_get (the co) (events (snd s))")
     (auto simp: TNSPusherConnection_unbind_def Pusher_unbindWithCallbackId_def Let_def)

lemma TNSPusher_receive_simps:
  "ios (fst (TNSPusher_receive N data this)) = ios this"
  "globalEvents (fst (TNSPusher_receive N data this)) = globalEvents this"
  by (simp_all add: TNSPusher_receive_def receive_def Let_def split: option.split)

lemma TNSPusher_receive_events:
  "x \<in> set (connection_events (fst (TNSPusher_receive N data this))) \<Longrightarrow>
   x \<in> set (connection_events this) \<or>
   snd x \<in> set (concat (map (\<lambda>s. captured (snd s)) (callbacks (ios this))))"
  by (auto simp: TNSPusher_receive_def receive_def Let_def connection_events_def
      split: option.splits dest!: fold_apply_effect_in dest: Pusher_deliver_EventsSet)

lemma state_change_simps:
  "ios (the (changedConnectionStateFromTo old new (Some this))) = ios this"
  "globalEvents (the (changedConnectionStateFromTo old new (Some this))) = globalEvents this"
  "connection_events (the (changedConnectionStateFromTo old new (Some this))) = connection_events this"
  by (simp_all add: changedConnectionStateFromTo_def get_connection_def connection_events_def
      TNSPusherConnection_constructor_def split: option.split prod.split)


lemma not_yet_issued: "inj (newId N) \<Longrightarrow> h \<in> newId N ` {..<n} \<Longrightarrow> h \<noteq> newId N n"
  by (auto dest: injD)

lemma issued_mono: "h \<in> newId N ` {..<n} \<Longrightarrow> h \<in> newId N ` {..<Suc n}"
  by auto

lemma filter_other_handle:
  "h \<noteq> h' \<Longrightarrow> filter (\<lambda>s. fst s = h) (filter (\<lambda>s. fst s \<noteq> h') xs) = filter (\<lambda>s. fst s = h) xs"
  by (induction xs) auto

lemma forgottenI:
  "\<lbrakk>\<forall>x \<in> set (globalEvents q). snd x \<noteq> h;
    \<forall>x \<in> set (connection_events q). snd x \<noteq> h;
    \<forall>s \<in> set (callbacks (ios q)). h \<notin> set (captured (snd s));
    h \<notin> set (unbound (calls (ios q)));
    h \<in> newId N ` {..<issued (ios q)}\<rbrakk> \<Longrightarrow> forgotten N h q"
  by (auto simp: forgotten_def referenced_def)

lemma forgottenD:
  assumes "forgotten N h q"
  shows "\<forall>x \<in> set (globalEvents q). snd x \<noteq> h"
    and "\<forall>x \<in> set (connection_events q). snd x \<noteq> h"
    and "\<forall>s \<in> set (callbacks (ios q)). h \<notin> set (captured (snd s))"
    and "h \<notin> set (unbound (calls (ios q)))"
    and "h \<in> newId N ` {..<issued (ios q)}"
  using assms by (force simp: forgotten_def referenced_def)+

lemma forgotten_Bind:
  assumes "inj (newId N)" and "forgotten N h q"
  shows "forgotten N h (TNSPusher_bind N c q) \<and>
         filter (\<lambda>s. fst s = h) (callbacks (ios (TNSPusher_bind N c q)))
           = filter (\<lambda>s. fst s = h) (callbacks (ios q))"
proof -
  note d = forgottenD [OF assms(2)]
  from assms(1) d(5) have ne: "h \<noteq> newId N (issued (ios q))" by (rule not_yet_issued)
  have "forgotten N h (TNSPusher_bind N c q)"
  proof (rule forgottenI)
    show "\<forall>x \<in> set (globalEvents (TNSPusher_bind N c q)). snd x \<noteq> h"
      using d(1) ne unfolding TNSPusher_bind_simps by (auto dest!: in_Map_set)
    show "\<forall>x \<in> set (connection_events (TNSPusher_bind N c q)). snd x \<noteq> h"
      using d(2) unfolding TNSPusher_bind_simps .
    show "\<forall>s \<in> set (callbacks (ios (TNSPusher_bind N c q))). h \<notin> set (captured (snd s))"
      using d(3) unfolding TNSPusher_bind_simps by simp
    show "h \<notin> set (unbound (calls (ios (TNSPusher_bind N c q))))"
      using d(4) unfolding TNSPusher_bind_simps by (simp add: unbound_append)
    show "h \<in> newId N ` {..<issued (ios (TNSPusher_bind N c q))}"
      using d(5) unfolding TNSPusher_bind_simps by (rule issued_mono)
  qed
  moreover have "filter (\<lambda>s. fst s = h) (callbacks (ios (TNSPusher_bind N c q)))
           = filter (\<lambda>s. fst s = h) (callbacks (ios q))"
    using ne unfolding TNSPusher_bind_simps by simp
  ultimately show ?thesis ..
qed

lemma forgotten_Unbind:
  assumes "forgotten N h q"
  shows "forgotten N h (TNSPusher_unbind c q) \<and>
         filter (\<lambda>s. fst s = h) (callbacks (ios (TNSPusher_unbind c q)))
           = filter (\<lambda>s. fst s = h) (callbacks (ios q))"
proof -
  note d = forgottenD [OF assms]
  from TNSPusher_unbind_cases [of c q] show ?thesis
  proof
    assume "\<not> truthy (Map_get c (globalEvents q)) \<and> TNSPusher_unbind c q = q"
    with assms show ?thesis by simp
  next
    assume "\<exists>h'. Map_get c (globalEvents q) = Some h' \<and> h' \<noteq> [] \<and>
        callbacks (ios (TNSPusher_unbind c q)) = filter (\<lambda>s. fst s \<noteq> h') (callbacks (ios q)) \<and>
        issued (ios (TNSPusher_unbind c q)) = issued (ios q) \<and>
        calls (ios (TNSPusher_unbind c q)) = calls (ios q) @ [UnbindCall h'] \<and>
        globalEvents (TNSPusher_unbind c q) = Map_delete c (globalEvents q) \<and>
        connection_events (TNSPusher_unbind c q) = connection_events q \<and>
        priv_connection (TNSPusher_unbind c q) = priv_connection q"
    then obtain h' where g: "Map_get c (globalEvents q) = Some h'"
      and u: "callbacks (ios (TNSPusher_unbind c q)) = filter (\<lambda>s. fst s \<noteq> h') (callbacks (ios q))"
        "issued (ios (TNSPusher_unbind c q)) = issued (ios q)"
        "calls (ios (TNSPusher_unbind c q)) = calls (ios q) @ [UnbindCall h']"
        "globalEvents (TNSPusher_unbind c q) = Map_delete c (globalEvents q)"
        "connection_events (TNSPusher_unbind c q) = connection_events q"
      by blast
    from g have "(c, h') \<in> set (globalEvents q)" by (rule Map_get_in)
    with d(1) have ne: "h \<noteq> h'" by auto
    have "forgotten N h (TNSPusher_unbind c q)"
    proof (rule forgottenI)
      show "\<forall>x \<in> set (globalEvents (TNSPusher_unbind c q)). snd x \<noteq> h"
        using d(1) unfolding u by (auto dest!: in_Map_delete)
      show "\<forall>x \<in> set (connection_events (TNSPusher_unbind c q)). snd x \<noteq> h"
        using d(2) unfolding u .
      show "\<forall>s \<in> set (callbacks (ios (TNSPusher_unbind c q))). h \<notin> set (captured (snd s))"
        using d(3) unfolding u by simp
      show "h \<notin> set (unbound (calls (ios (TNSPusher_unbind c q))))"
        using d(4) ne unfolding u by (simp add: unbound_append)
      show "h \<in> newId N ` {..<issued (ios (TNSPusher_unbind c q))}"
        using d(5) unfolding u .
    qed
    moreover have "filter (\<lambda>s. fst s = h) (callbacks (ios (TNSPusher_unbind c q)))
           = filter (\<lambda>s. fst s = h) (callbacks (ios q))"
      unfolding u using ne by (rule filter_other_handle)
    ultimately show ?thesis ..
  qed
qed

lemma forgotten_ConnectionBind:
  assumes "inj (newId N)" and "forgotten N h q"
  shows "forgotten N h (on_connection (TNSPusherConnection_bind N e c) q) \<and>
         filter (\<lambda>s. fst s = h) (callbacks (ios (on_connection (TNSPusherConnection_bind N e c) q)))
           = filter (\<lambda>s. fst s = h) (callbacks (ios q))"
proof -
  let ?q' = "on_connection (TNSPusherConnection_bind N e c) q"
  note d = forgottenD [OF assms(2)]
  from assms(1) d(5) have ne: "h \<noteq> newId N (issued (ios q))" by (rule not_yet_issued)
  have sim: "callbacks (ios ?q') = callbacks (ios q)
               @ [(newId N (issued (ios q)), ConnectionClosure e c (newId N (issued (ios q))))]"
    "issued (ios ?q') = Suc (issued (ios q))"
    "calls (ios ?q') = calls (ios q) @ [BindCall (newId N (issued (ios q)))]"
    "globalEvents ?q' = globalEvents q"
    "connection_events ?q' = connection_events q"
    by (simp_all add: on_connection_simps connection_bind_simps get_connection_simps)
  have "forgotten N h ?q'"
  proof (rule forgottenI)
    show "\<forall>x \<in> set (globalEvents ?q'). snd x \<noteq> h" using d(1) unfolding sim .
    show "\<forall>x \<in> set (connection_events ?q'). snd x \<noteq> h" using d(2) unfolding sim .
    show "\<forall>s \<in> set (callbacks (ios ?q')). h \<notin> set (captured (snd s))"
      using d(3) ne unfolding sim by simp
    show "h \<notin> set (unbound (calls (ios ?q')))"
      using d(4) unfolding sim by (simp add: unbound_append)
    show "h \<in> newId N ` {..<issued (ios ?q')}"
      using d(5) unfolding sim by (rule issued_mono)
  qed
  moreover have "filter (\<lambda>s. fst s = h) (callbacks (ios ?q'))
           = filter (\<lambda>s. fst s = h) (callbacks (ios q))"
    using ne unfolding sim by simp
  ultimately show ?thesis ..
qed

lemma forgotten_ConnectionUnbind:
  assumes "forgotten N h q"
  shows "forgotten N h (on_connection (TNSPusherConnection_unbind e co) q) \<and>
         filter (\<lambda>s. fst s = h) (callbacks (ios (on_connection (TNSPusherConnection_unbind e co) q)))
           = filter (\<lambda>s. fst s = h) (callbacks (ios q))"
proof -
  let ?s = "(ios q, fst (get_connection q))"
  let ?q' = "on_connection (TNSPusherConnection_unbind e co) q"
  note d = forgottenD [OF assms]
  from connection_unbind_cases [of e co ?s] show ?thesis
  proof
    assume same: "TNSPusherConnection_unbind e co ?s = ?s"
    have sim: "ios ?q' = ios q" "globalEvents ?q' = globalEvents q"
      "connection_events ?q' = connection_events q"
      by (simp_all add: on_connection_simps same get_connection_simps)
    have "forgotten N h ?q'"
      by (rule forgottenI) (use d in \<open>simp_all add: sim\<close>)
    then show ?thesis by (simp add: sim)
  next
    assume "\<exists>c h'. co = Some c \<and> Map_get c (events (snd ?s)) = Some h' \<and> h' \<noteq> [] \<and>
        callbacks (fst (TNSPusherConnection_unbind e co ?s)) = filter (\<lambda>s. fst s \<noteq> h') (callbacks (fst ?s)) \<and>
        issued (fst (TNSPusherConnection_unbind e co ?s)) = issued (fst ?s) \<and>
        calls (fst (TNSPusherConnection_unbind e co ?s)) = calls (fst ?s) @ [UnbindCall h'] \<and>
        events (snd (TNSPusherConnection_unbind e co ?s)) = Map_delete c (events (snd ?s)) \<and>
        priv_state (snd (TNSPusherConnection_unbind e co ?s)) = priv_state (snd ?s)"
    then obtain c h' where g: "Map_get c (connection_events q) = Some h'"
      and u: "callbacks (fst (TNSPusherConnection_unbind e co ?s)) = filter (\<lambda>s. fst s \<noteq> h') (callbacks (ios q))"
        "issued (fst (TNSPusherConnection_unbind e co ?s)) = issued (ios q)"
        "calls (fst (TNSPusherConnection_unbind e co ?s)) = calls (ios q) @ [UnbindCall h']"
        "events (snd (TNSPusherConnection_unbind e co ?s)) = Map_delete c (connection_events q)"
      by (auto simp: get_connection_simps)
    have sim: "callbacks (ios ?q') = filter (\<lambda>s. fst s \<noteq> h') (callbacks (ios q))"
      "issued (ios ?q') = issued (ios q)"
      "calls (ios ?q') = calls (ios q) @ [UnbindCall h']"
      "globalEvents ?q' = globalEvents q"
      "connection_events ?q' = Map_delete c (connection_events q)"
      by (simp_all add: on_connection_simps u)
    from g have "(c, h') \<in> set (connection_events q)" by (rule Map_get_in)
    with d(2) have ne: "h \<noteq> h'" by auto
    have "forgotten N h ?q'"
    proof (rule forgottenI)
      show "\<forall>x \<in> set (globalEvents ?q'). snd x \<noteq> h" using d(1) unfolding sim .
      show "\<forall>x \<in> set (connection_events ?q'). snd x \<noteq> h"
        using d(2) unfolding sim by (auto dest!: in_Map_delete)
      show "\<forall>s \<in> set (callbacks (ios ?q')). h \<notin> set (captured (snd s))"
        using d(3) unfolding sim by simp
      show "h \<notin> set (unbound (calls (ios ?q')))"
        using d(4) ne unfolding sim by (simp add: unbound_append)
      show "h \<in> newId N ` {..<issued (ios ?q')}" using d(5) unfolding sim .
    qed
    moreover have "filter (\<lambda>s. fst s = h) (callbacks (ios ?q'))
           = filter (\<lambda>s. fst s = h) (callbacks (ios q))"
      unfolding sim using ne by (rule filter_other_handle)
    ultimately show ?thesis ..
  qed
qed

lemma forgotten_Receive:
  assumes "forgotten N h q"
  shows "forgotten N h (fst (TNSPusher_receive N data q)) \<and>
         filter (\<lambda>s. fst s = h) (callbacks (ios (fst (TNSPusher_receive N data q))))
           = filter (\<lambda>s. fst s = h) (callbacks (ios q))"
proof -
  let ?q' = "fst (TNSPusher_receive N data q)"
  note d = forgottenD [OF assms]
  have "forgotten N h ?q'"
  proof (rule forgottenI)
    show "\<forall>x \<in> set (globalEvents ?q'). snd x \<noteq> h" using d(1) unfolding TNSPusher_receive_simps .
    show "\<forall>x \<in> set (connection_events ?q'). snd x \<noteq> h"
    proof
      fix x assume "x \<in> set (connection_events ?q')"
      then have "x \<in> set (connection_events q) \<or>
           snd x \<in> set (concat (map (\<lambda>s. captured (snd s)) (callbacks (ios q))))"
        by (rule TNSPusher_receive_events)
      with d(2) d(3) show "snd x \<noteq> h" by auto
    qed
    show "\<forall>s \<in> set (callbacks (ios ?q')). h \<notin> set (captured (snd s))"
      using d(3) unfolding TNSPusher_receive_simps .
    show "h \<notin> set (unbound (calls (ios ?q')))" using d(4) unfolding TNSPusher_receive_simps .
    show "h \<in> newId N ` {..<issued (ios ?q')}" using d(5) unfolding TNSPusher_receive_simps .
  qed
  then show ?thesis by (simp add: TNSPusher_receive_simps)
qed

lemma forgotten_StateChange:
  assumes "forgotten N h q"
  shows "forgotten N h (the (changedConnectionStateFromTo old new (Some q))) \<and>
         filter (\<lambda>s. fst s = h) (callbacks (ios (the (changedConnectionStateFromTo old new (Some q)))))
           = filter (\<lambda>s. fst s = h) (callbacks (ios q))"
proof -
  note d = forgottenD [OF assms]
  have "forgotten N h (the (changedConnectionStateFromTo old new (Some q)))"
    by (rule forgottenI) (use d in \<open>simp_all add: state_change_simps\<close>)
  then show ?thesis by (simp add: state_change_simps)
qed

lemma logged_simps:
  "callbacks (ios (TNSPusher_connect q)) = callbacks (ios q)"
  "callbacks (ios (TNSPusher_disconnect q)) = callbacks (ios q)"
  "callbacks (ios (snd (TNSPusher_subscribe ch q))) = callbacks (ios q)"
  "callbacks (ios (TNSPusher_unsubscribe ch q)) = callbacks (ios q)"
  "callbacks (ios (TNSPusher_unsubscribeAll q)) = callbacks (ios q)"
  "issued (ios (TNSPusher_connect q)) = issued (ios q)"
  "issued (ios (TNSPusher_disconnect q)) = issued (ios q)"
  "issued (ios (snd (TNSPusher_subscribe ch q))) = issued (ios q)"
  "issued (ios (TNSPusher_unsubscribe ch q)) = issued (ios q)"
  "issued (ios (TNSPusher_unsubscribeAll q)) = issued (ios q)"
  "unbound (calls (ios (TNSPusher_connect q))) = unbound (calls (ios q))"
  "unbound (calls (ios (TNSPusher_disconnect q))) = unbound (calls (ios q))"
  "unbound (calls (ios (snd (TNSPusher_subscribe ch q)))) = unbound (calls (ios q))"
  "unbound (calls (ios (TNSPusher_unsubscribe ch q))) = unbound (calls (ios q))"
  "unbound (calls (ios (TNSPusher_unsubscribeAll q))) = unbound (calls (ios q))"
  "globalEvents (TNSPusher_connect q) = globalEvents q"
  "globalEvents (TNSPusher_disconnect q) = globalEvents q"
  "globalEvents (snd (TNSPusher_subscribe ch q)) = globalEvents q"
  "globalEvents (TNSPusher_unsubscribe ch q) = globalEvents q"
  "globalEvents (TNSPusher_unsubscribeAll q) = globalEvents q"
  "connection_events (TNSPusher_connect q) = connection_events q"
  "connection_events (TNSPusher_disconnect q) = connection_events q"
  "connection_events (snd (TNSPusher_subscribe ch q)) = connection_events q"
  "connection_events (TNSPusher_unsubscribe ch q) = connection_events q"
  "connection_events (TNSPusher_unsubscribeAll q) = connection_events q"
  by (simp_all add: TNSPusher_connect_def TNSPusher_disconnect_def TNSPusher_subscribe_def
      TNSPusher_unsubscribe_def TNSPusher_unsubscribeAll_def Pusher_connect_def
      Pusher_disconnect_def Pusher_unsubscribe_def Pusher_unsubscribeAll_def
      subscribeWithChannelNameOnMemberAddedOnMemberRemoved_def connection_events_def
      unbound_append)

lemma forgotten_logged:
  assumes "forgotten N h q"
    and "callbacks (ios q') = callbacks (ios q)" and "issued (ios q') = issued (ios q)"
    and "unbound (calls (ios q')) = unbound (calls (ios q))"
    and "globalEvents q' = globalEvents q" and "connection_events q' = connection_events q"
  shows "forgotten N h q' \<and>
         filter (\<lambda>s. fst s = h) (callbacks (ios q')) = filter (\<lambda>s. fst s = h) (callbacks (ios q))"
proof -
  have "forgotten N h q'"
    by (rule forgottenI) (use forgottenD [OF assms(1)] in \<open>simp_all add: assms(2-6)\<close>)
  then show ?thesis by (simp add: assms(2))
qed

lemma forgotten_step:
  assumes "inj (newId N)" and "forgotten N h q"
  shows "forgotten N h (step N op q) \<and>
         filter (\<lambda>s. fst s = h) (callbacks (ios (step N op q)))
           = filter (\<lambda>s. fst s = h) (callbacks (ios q))"
proof (cases op)
  case (Bind c)
  then show ?thesis using forgotten_Bind [OF assms] by simp
next
  case (Unbind c)
  then show ?thesis using forgotten_Unbind [OF assms(2)] by simp
next
  case (ConnectionBind e c)
  then show ?thesis using forgotten_ConnectionBind [OF assms] by simp
next
  case (ConnectionUnbind e co)
  then show ?thesis using forgotten_ConnectionUnbind [OF assms(2)] by simp
next
  case (Receive data)
  then show ?thesis using forgotten_Receive [OF assms(2)] by simp
next
  case (StateChange old new)
  then show ?thesis using forgotten_StateChange [OF assms(2)] by simp
next
  case Connect
  then show ?thesis using forgotten_logged [OF assms(2), of "TNSPusher_connect q"]
    by (simp add: logged_simps)
next
  case Disconnect
  then show ?thesis using forgotten_logged [OF assms(2), of "TNSPusher_disconnect q"]
    by (simp add: logged_simps)
next
  case (Subscribe ch)
  then show ?thesis using forgotten_logged [OF assms(2), of "snd (TNSPusher_subscribe ch q)"]
    by (simp add: logged_simps)
next
  case (Unsubscribe ch)
  then show ?thesis using forgotten_logged [OF assms(2), of "TNSPusher_unsubscribe ch q"]
    by (simp add: logged_simps)
next
  case UnsubscribeAll
  then show ?thesis using forgotten_logged [OF assms(2), of "TNSPusher_unsubscribeAll q"]
    by (simp add: logged_simps)
qed

lemma forgotten_run:
  assumes "inj (newId N)" and "forgotten N h q"
  shows "forgotten N h (run N ops q) \<and>
         filter (\<lambda>s. fst s = h) (callbacks (ios (run N ops q)))
           = filter (\<lambda>s. fst s = h) (callbacks (ios q))"
  using assms(2)
proof (induction ops arbitrary: q)
  case Nil
  then show ?case by (simp add: run_def)
next
  case (Cons op ops)
  have r: "run N (op # ops) q = run N ops (step N op q)" by (simp add: run_def)
  from forgotten_step [OF assms(1) Cons.prems, of op]
  have a: "forgotten N h (step N op q)"
    and b: "filter (\<lambda>s. fst s = h) (callbacks (ios (step N op q)))
           = filter (\<lambda>s. fst s = h) (callbacks (ios q))" by simp_all
  from Cons.IH [OF a] b show ?case unfolding r by simp
qed


lemma well_formedI:
  "\<lbrakk>\<forall>x \<in> set (globalEvents q). snd x \<in> newId N ` {..<issued (ios q)};
    \<forall>x \<in> set (connection_events q). snd x \<in> newId N ` {..<issued (ios q)};
    \<forall>s \<in> set (callbacks (ios q)). set (captured (snd s)) \<subseteq> newId N ` {..<issued (ios q)};
    \<forall>s \<in> set (callbacks (ios q)). fst s \<in> newId N ` {..<issued (ios q)};
    set (unbound (calls (ios q))) \<subseteq> newId N ` {..<issued (ios q)}\<rbrakk> \<Longrightarrow> well_formed N q"
  unfolding well_formed_def known_def referenced_def by (simp add: image_subset_iff) blast

lemma well_formedD:
  assumes "well_formed N q"
  shows "\<forall>x \<in> set (globalEvents q). snd x \<in> newId N ` {..<issued (ios q)}"
    and "\<forall>x \<in> set (connection_events q). snd x \<in> newId N ` {..<issued (ios q)}"
    and "\<forall>s \<in> set (callbacks (ios q)). set (captured (snd s)) \<subseteq> newId N ` {..<issued (ios q)}"
    and "\<forall>s \<in> set (callbacks (ios q)). fst s \<in> newId N ` {..<issued (ios q)}"
    and "set (unbound (calls (ios q))) \<subseteq> newId N ` {..<issued (ios q)}"
  using assms unfolding well_formed_def known_def referenced_def
  by (simp_all add: image_subset_iff) blast+

lemma newest_issued: "newId N n \<in> newId N ` {..<Suc n}"
  by simp

lemma issued_mono_all:
  "\<forall>x \<in> A. f x \<in> newId N ` {..<n} \<Longrightarrow> \<forall>x \<in> A. f x \<in> newId N ` {..<Suc n}"
  by (blast intro: issued_mono)

lemma issued_mono_subset: "A \<subseteq> newId N ` {..<n} \<Longrightarrow> A \<subseteq> newId N ` {..<Suc n}"
  by (blast intro: issued_mono)


lemma issued_mono_captured:
  "\<forall>s \<in> A. set (g s) \<subseteq> newId N ` {..<n} \<Longrightarrow> \<forall>s \<in> A. set (g s) \<subseteq> newId N ` {..<Suc n}"
  by (blast intro: issued_mono)

lemma well_formed_constructor: "well_formed N (TNSPusher_constructor apiKey options)"
  by (rule well_formedI)
     (simp_all add: TNSPusher_constructor_def connection_events_def initWithKey_def
        initWithAppKeyOptions_def Let_def split: option.split)

lemma well_formed_Bind:
  assumes "well_formed N q"
  shows "well_formed N (TNSPusher_bind N c q)"
proof (rule well_formedI)
  note d = well_formedD [OF assms]
  show "\<forall>x \<in> set (globalEvents (TNSPusher_bind N c q)).
          snd x \<in> newId N ` {..<issued (ios (TNSPusher_bind N c q))}"
    unfolding TNSPusher_bind_simps
  proof
    fix x assume "x \<in> set (Map_set c (newId N (issued (ios q))) (globalEvents q))"
    then have "x = (c, newId N (issued (ios q))) \<or> x \<in> set (globalEvents q)" by (rule in_Map_set)
    then show "snd x \<in> newId N ` {..<Suc (issued (ios q))}"
      using d(1) by (auto intro: issued_mono)
  qed
  show "\<forall>x \<in> set (connection_events (TNSPusher_bind N c q)).
          snd x \<in> newId N ` {..<issued (ios (TNSPusher_bind N c q))}"
    unfolding TNSPusher_bind_simps using d(2) by (rule issued_mono_all)
  show "\<forall>s \<in> set (callbacks (ios (TNSPusher_bind N c q))).
          set (captured (snd s)) \<subseteq> newId N ` {..<issued (ios (TNSPusher_bind N c q))}"
    unfolding TNSPusher_bind_simps using issued_mono_captured [OF d(3)] by simp
  show "\<forall>s \<in> set (callbacks (ios (TNSPusher_bind N c q))).
          fst s \<in> newId N ` {..<issued (ios (TNSPusher_bind N c q))}"
    unfolding TNSPusher_bind_simps using d(4) by (auto intro: issued_mono)
  show "set (unbound (calls (ios (TNSPusher_bind N c q))))
          \<subseteq> newId N ` {..<issued (ios (TNSPusher_bind N c q))}"
    unfolding TNSPusher_bind_simps using d(5) by (auto simp: unbound_append intro: issued_mono)
qed

lemma well_formed_Unbind:
  assumes "well_formed N q"
  shows "well_formed N (TNSPusher_unbind c q)"
proof -
  note d = well_formedD [OF assms]
  from TNSPusher_unbind_cases [of c q] show ?thesis
  proof
    assume "\<not> truthy (Map_get c (globalEvents q)) \<and> TNSPusher_unbind c q = q"
    with assms show ?thesis by simp
  next
    assume "\<exists>h'. Map_get c (globalEvents q) = Some h' \<and> h' \<noteq> [] \<and>
        callbacks (ios (TNSPusher_unbind c q)) = filter (\<lambda>s. fst s \<noteq> h') (callbacks (ios q)) \<and>
        issued (ios (TNSPusher_unbind c q)) = issued (ios q) \<and>
        calls (ios (TNSPusher_unbind c q)) = calls (ios q) @ [UnbindCall h'] \<and>
        globalEvents (TNSPusher_unbind c q) = Map_delete c (globalEvents q) \<and>
        connection_events (TNSPusher_unbind c q) = connection_events q \<and>
        priv_connection (TNSPusher_unbind c q) = priv_connection q"
    then obtain h' where g: "Map_get c (globalEvents q) = Some h'"
      and u: "callbacks (ios (TNSPusher_unbind c q)) = filter (\<lambda>s. fst s \<noteq> h') (callbacks (ios q))"
        "issued (ios (TNSPusher_unbind c q)) = issued (ios q)"
        "calls (ios (TNSPusher_unbind c q)) = calls (ios q) @ [UnbindCall h']"
        "globalEvents (TNSPusher_unbind c q) = Map_delete c (globalEvents q)"
        "connection_events (TNSPusher_unbind c q) = connection_events q"
      by blast
    from g have "(c, h') \<in> set (globalEvents q)" by (rule Map_get_in)
    with d(1) have h': "h' \<in> newId N ` {..<issued (ios q)}" by force
    show ?thesis
    proof (rule well_formedI)
      show "\<forall>x \<in> set (globalEvents (TNSPusher_unbind c q)).
              snd x \<in> newId N ` {..<issued (ios (TNSPusher_unbind c q))}"
        unfolding u using d(1) by (blast dest: in_Map_delete)
      show "\<forall>x \<in> set (connection_events (TNSPusher_unbind c q)).
              snd x \<in> newId N ` {..<issued (ios (TNSPusher_unbind c q))}"
        unfolding u using d(2) .
      show "\<forall>s \<in> set (callbacks (ios (TNSPusher_unbind c q))).
              set (captured (snd s)) \<subseteq> newId N ` {..<issued (ios (TNSPusher_unbind c q))}"
        unfolding u using d(3) by simp
      show "\<forall>s \<in> set (callbacks (ios (TNSPusher_unbind c q))).
              fst s \<in> newId N ` {..<issued (ios (TNSPusher_unbind c q))}"
        unfolding u using d(4) by simp
      show "set (unbound (calls (ios (TNSPusher_unbind c q))))
              \<subseteq> newId N ` {..<issued (ios (TNSPusher_unbind c q))}"
        unfolding u using d(5) h' by (simp add: unbound_append)
    qed
  qed
qed

lemma well_formed_ConnectionBind:
  assumes "well_formed N q"
  shows "well_formed N (on_connection (TNSPusherConnection_bind N e c) q)"
proof (rule well_formedI)
  let ?q' = "on_connection (TNSPusherConnection_bind N e c) q"
  note d = well_formedD [OF assms]
  have sim: "callbacks (ios ?q') = callbacks (ios q)
               @ [(newId N (issued (ios q)), ConnectionClosure e c (newId N (issued (ios q))))]"
    "issued (ios ?q') = Suc (issued (ios q))"
    "calls (ios ?q') = calls (ios q) @ [BindCall (newId N (issued (ios q)))]"
    "globalEvents ?q' = globalEvents q"
    "connection_events ?q' = connection_events q"
    by (simp_all add: on_connection_simps connection_bind_simps get_connection_simps)
  show "\<forall>x \<in> set (globalEvents ?q'). snd x \<in> newId N ` {..<issued (ios ?q')}"
    unfolding sim using d(1) by (rule issued_mono_all)
  show "\<forall>x \<in> set (connection_events ?q'). snd x \<in> newId N ` {..<issued (ios ?q')}"
    unfolding sim using d(2) by (rule issued_mono_all)
  show "\<forall>s \<in> set (callbacks (ios ?q')). set (captured (snd s)) \<subseteq> newId N ` {..<issued (ios ?q')}"
    unfolding sim using issued_mono_captured [OF d(3)] by simp
  show "\<forall>s \<in> set (callbacks (ios ?q')). fst s \<in> newId N ` {..<issued (ios ?q')}"
    unfolding sim using d(4) by (auto intro: issued_mono)
  show "set (unbound (calls (ios ?q'))) \<subseteq> newId N ` {..<issued (ios ?q')}"
    unfolding sim using d(5) by (auto simp: unbound_append intro: issued_mono)
qed

lemma well_formed_ConnectionUnbind:
  assumes "well_formed N q"
  shows "well_formed N (on_connection (TNSPusherConnection_unbind e co) q)"
proof -
  let ?s = "(ios q, fst (get_connection q))"
  let ?q' = "on_connection (TNSPusherConnection_unbind e co) q"
  note d = well_formedD [OF assms]
  from connection_unbind_cases [of e co ?s] show ?thesis
  proof
    assume same: "TNSPusherConnection_unbind e co ?s = ?s"
    have sim: "ios ?q' = ios q" "globalEvents ?q' = globalEvents q"
      "connection_events ?q' = connection_events q"
      by (simp_all add: on_connection_simps same get_connection_simps)
    show ?thesis
      by (rule well_formedI) (use d in \<open>simp_all add: sim\<close>)
  next
    assume "\<exists>c h'. co = Some c \<and> Map_get c (events (snd ?s)) = Some h' \<and> h' \<noteq> [] \<and>
        callbacks (fst (TNSPusherConnection_unbind e co ?s)) = filter (\<lambda>s. fst s \<noteq> h') (callbacks (fst ?s)) \<and>
        issued (fst (TNSPusherConnection_unbind e co ?s)) = issued (fst ?s) \<and>
        calls (fst (TNSPusherConnection_unbind e co ?s)) = calls (fst ?s) @ [UnbindCall h'] \<and>
        events (snd (TNSPusherConnection_unbind e co ?s)) = Map_delete c (events (snd ?s)) \<and>
        priv_state (snd (TNSPusherConnection_unbind e co ?s)) = priv_state (snd ?s)"
    then obtain c h' where g: "Map_get c (connection_events q) = Some h'"
      and u: "callbacks (fst (TNSPusherConnection_unbind e co ?s)) = filter (\<lambda>s. fst s \<noteq> h') (callbacks (ios q))"
        "issued (fst (TNSPusherConnection_unbind e co ?s)) = issued (ios q)"
        "calls (fst (TNSPusherConnection_unbind e co ?s)) = calls (ios q) @ [UnbindCall h']"
        "events (snd (TNSPusherConnection_unbind e co ?s)) = Map_delete c (connection_events q)"
      by (auto simp: get_connection_simps)
    have sim: "callbacks (ios ?q') = filter (\<lambda>s. fst s \<noteq> h') (callbacks (ios q))"
      "issued (ios ?q') = issued (ios q)"
      "calls (ios ?q') = calls (ios q) @ [UnbindCall h']"
      "globalEvents ?q' = globalEvents q"
      "connection_events ?q' = Map_delete c (connection_events q)"
      by (simp_all add: on_connection_simps u)
    from g have "(c, h') \<in> set (connection_events q)" by (rule Map_get_in)
    with d(2) have h': "h' \<in> newId N ` {..<issued (ios q)}" by force
    show ?thesis
    proof (rule well_formedI)
      show "\<forall>x \<in> set (globalEvents ?q'). snd x \<in> newId N ` {..<issued (ios ?q')}"
        unfolding sim using d(1) .
      show "\<forall>x \<in> set (connection_events ?q'). snd x \<in> newId N ` {..<issued (ios ?q')}"
        unfolding sim using d(2) by (blast dest: in_Map_delete)
      show "\<forall>s \<in> set (callbacks (ios ?q')). set (captured (snd s)) \<subseteq> newId N ` {..<issued (ios ?q')}"
        unfolding sim using d(3) by simp
      show "\<forall>s \<in> set (callbacks (ios ?q')). fst s \<in> newId N ` {..<issued (ios ?q')}"
        unfolding sim using d(4) by simp
      show "set (unbound (calls (ios ?q'))) \<subseteq> newId N ` {..<issued (ios ?q')}"
        unfolding sim using d(5) h' by (simp add: unbound_append)
    qed
  qed
qed

lemma well_formed_Receive:
  assumes "well_formed N q"
  shows "well_formed N (fst (TNSPusher_receive N data q))"
proof (rule well_formedI)
  let ?q' = "fst (TNSPusher_receive N data q)"
  note d = well_formedD [OF assms]
  show "\<forall>x \<in> set (globalEvents ?q'). snd x \<in> newId N ` {..<issued (ios ?q')}"
    unfolding TNSPusher_receive_simps using d(1) .
  show "\<forall>x \<in> set (connection_events ?q'). snd x \<in> newId N ` {..<issued (ios ?q')}"
    unfolding TNSPusher_receive_simps
  proof
    fix x assume "x \<in> set (connection_events ?q')"
    then have "x \<in> set (connection_events q) \<or>
         snd x \<in> set (concat (map (\<lambda>s. captured (snd s)) (callbacks (ios q))))"
      by (rule TNSPusher_receive_events)
    with d(2) d(3) show "snd x \<in> newId N ` {..<issued (ios q)}" by auto
  qed
  show "\<forall>s \<in> set (callbacks (ios ?q')). set (captured (snd s)) \<subseteq> newId N ` {..<issued (ios ?q')}"
    unfolding TNSPusher_receive_simps using d(3) .
  show "\<forall>s \<in> set (callbacks (ios ?q')). fst s \<in> newId N ` {..<issued (ios ?q')}"
    unfolding TNSPusher_receive_simps using d(4) .
  show "set (unbound (calls (ios ?q'))) \<subseteq> newId N ` {..<issued (ios ?q')}"
    unfolding TNSPusher_receive_simps using d(5) .
qed

lemma well_formed_StateChange:
  assumes "well_formed N q"
  shows "well_formed N (the (changedConnectionStateFromTo old new (Some q)))"
  by (rule well_formedI) (use well_formedD [OF assms] in \<open>simp_all add: state_change_simps\<close>)

lemma well_formed_logged:
  assumes "well_formed N q"
    and "callbacks (ios q') = callbacks (ios q)" and "issued (ios q') = issued (ios q)"
    and "unbound (calls (ios q')) = unbound (calls (ios q))"
    and "globalEvents q' = globalEvents q" and "connection_events q' = connection_events q"
  shows "well_formed N q'"
  by (rule well_formedI) (use well_formedD [OF assms(1)] in \<open>simp_all add: assms(2-6)\<close>)

lemma well_formed_step: "well_formed N q \<Longrightarrow> well_formed N (step N op q)"
  by (cases op)
     (simp_all add: well_formed_Bind well_formed_Unbind well_formed_ConnectionBind
        well_formed_ConnectionUnbind well_formed_Receive well_formed_StateChange
        well_formed_logged logged_simps)

lemma well_formed_run: "well_formed N q \<Longrightarrow> well_formed N (run N ops q)"
  unfolding run_def by (induction ops arbitrary: q) (simp_all add: well_formed_step)

lemma well_formed_fresh:
  assumes "inj (newId N)" and "well_formed N q" and "issued (ios q) \<le> n"
  shows "\<forall>x \<in> set (globalEvents q). snd x \<noteq> newId N n"
    and "\<forall>x \<in> set (connection_events q). snd x \<noteq> newId N n"
    and "\<forall>s \<in> set (callbacks (ios q)). newId N n \<notin> set (captured (snd s))"
    and "\<forall>s \<in> set (callbacks (ios q)). fst s \<noteq> newId N n"
    and "newId N n \<notin> set (unbound (calls (ios q)))"
proof -
  have out: "newId N n \<notin> newId N ` {..<issued (ios q)}"
    using assms(1,3) by (auto dest: injD)
  note d = well_formedD [OF assms(2)]
  show "\<forall>x \<in> set (globalEvents q). snd x \<noteq> newId N n" using d(1) out by metis
  show "\<forall>x \<in> set (connection_events q). snd x \<noteq> newId N n" using d(2) out by metis
  show "\<forall>s \<in> set (callbacks (ios q)). newId N n \<notin> set (captured (snd s))" using d(3) out by blast
  show "\<forall>s \<in> set (callbacks (ios q)). fst s \<noteq> newId N n" using d(4) out by metis
  show "newId N n \<notin> set (unbound (calls (ios q)))" using d(5) out by blast
qed


lemma distinct_step:
  assumes "distinct (keys (globalEvents q))" and "distinct (keys (connection_events q))"
  shows "distinct (keys (globalEvents (step N op q))) \<and>
         distinct (keys (connection_events (step N op q)))"
proof (cases op)
  case (Bind c)
  with assms show ?thesis by (simp add: TNSPusher_bind_simps distinct_Map_set)
next
  case (Unbind c)
  from TNSPusher_unbind_cases [of c q] assms show ?thesis
    unfolding Unbind by (auto simp: distinct_Map_delete)
next
  case (ConnectionBind e c)
  with assms show ?thesis
    by (simp add: on_connection_simps connection_bind_simps get_connection_simps)
next
  case (ConnectionUnbind e co)
  from connection_unbind_cases [of e co "(ios q, fst (get_connection q))"] assms show ?thesis
    unfolding ConnectionUnbind
    by (auto simp: on_connection_simps get_connection_simps distinct_Map_delete)
next
  case (Receive data)
  with assms show ?thesis
    by (auto simp: TNSPusher_receive_def receive_def Let_def connection_events_def
        fold_apply_effect_distinct split: option.split)
next
  case (StateChange old new)
  with assms show ?thesis by (simp add: state_change_simps)
next
  case Connect
  with assms show ?thesis by (simp add: logged_simps)
next
  case Disconnect
  with assms show ?thesis by (simp add: logged_simps)
next
  case (Subscribe ch)
  with assms show ?thesis by (simp add: logged_simps)
next
  case (Unsubscribe ch)
  with assms show ?thesis by (simp add: logged_simps)
next
  case UnsubscribeAll
  with assms show ?thesis by (simp add: logged_simps)
qed

lemma distinct_run:
  assumes "distinct (keys (globalEvents q))" and "distinct (keys (connection_events q))"
  shows "distinct (keys (globalEvents (run N ops q))) \<and>
         distinct (keys (connection_events (run N ops q)))"
  using assms unfolding run_def
proof (induction ops arbitrary: q)
  case Nil
  then show ?case by simp
next
  case (Cons op ops)
  from distinct_step [OF Cons.prems, of N op] Cons.IH [of "step N op q"] show ?case by simp
qed

lemma distinct_channel_step:
  "distinct (keys (channelEvents ch)) \<Longrightarrow> distinct (keys (channelEvents (channel_step N op ch)))"
  by (cases op)
     (auto simp: TNSPusherChannel_bind_def TNSPusherChannel_unbind_def bindWithEventName_def
        Let_def distinct_Map_set distinct_Map_delete)

lemma distinct_channel_run:
  "distinct (keys (channelEvents ch)) \<Longrightarrow> distinct (keys (channelEvents (channel_run N ops ch)))"
  unfolding channel_run_def by (induction ops arbitrary: ch) (simp_all add: distinct_channel_step)

lemma constructor_simps:
  "globalEvents (TNSPusher_constructor apiKey options) = []"
  "connection_events (TNSPusher_constructor apiKey options) = []"
  "callbacks (ios (TNSPusher_constructor apiKey options)) = []"
  "calls (ios (TNSPusher_constructor apiKey options)) = []"
  "issued (ios (TNSPusher_constructor apiKey options)) = 0"
  "priv_connection (TNSPusher_constructor apiKey options) = None"
  by (simp_all add: TNSPusher_constructor_def connection_events_def initWithKey_def
      initWithAppKeyOptions_def Let_def split: option.split)

lemma receive_invocations:
  "snd (TNSPusher_receive N data q) = invocations (Pusher_deliver N data (ios q))"
  by (simp add: TNSPusher_receive_def receive_def Let_def split: option.split)

lemma global_closure_invoked:
  "(h, GlobalClosure c) \<in> set (callbacks P) \<Longrightarrow>
   (c, Deserialized (deserialize N data)) \<in> set (invocations (Pusher_deliver N data P))"
  unfolding Pusher_deliver_def invocations_concat by force

lemma filter_none: "\<forall>s \<in> set xs. fst s \<noteq> h \<Longrightarrow> filter (\<lambda>s. fst s = h) xs = []"
  by (induction xs) auto

lemma filter_all: "\<forall>s \<in> set xs. fst s \<noteq> h \<Longrightarrow> filter (\<lambda>s. fst s \<noteq> h) xs = xs"
  by (induction xs) auto

section \<open>Binding one callback twice on the client\<close>

text \<open>
  C9: a client \<open>p\<close> reached by any calls is given the same callback twice through
  \<^verbatim>\<open>bind\<close>, then once through \<^verbatim>\<open>unbind\<close>. The second bind creates a second
  subscription with a handle of its own and the registry then holds the second handle
  only; the unbind makes one native unbind call, with the second handle, and removes the
  registry entry. The first subscription stays: after any further calls of the client's
  and the connection's methods, deliveries and state notifications, it is still bound, no
  native unbind call was made with its handle, and a delivered payload still invokes the
  callback. The native client is assumed to issue handles that are not empty and never
  twice the same.
\<close>

theorem double_bind_leaks_first_subscription:
  assumes inj: "inj (newId N)"
    and nonempty: "newId N (Suc (issued (ios p))) \<noteq> []"
    and reach: "p = run N before (TNSPusher_constructor apiKey options)"
  shows "let h1 = newId N (issued (ios p));
             h2 = newId N (Suc (issued (ios p)));
             p2 = TNSPusher_bind N c (TNSPusher_bind N c p);
             p3 = TNSPusher_unbind c p2
         in h1 \<noteq> h2 \<and>
            callbacks (ios p2) = callbacks (ios p) @ [(h1, GlobalClosure c), (h2, GlobalClosure c)] \<and>
            handles_of c (globalEvents p2) = [h2] \<and>
            calls (ios p3) = calls (ios p) @ [BindCall h1, BindCall h2, UnbindCall h2] \<and>
            callbacks (ios p3) = callbacks (ios p) @ [(h1, GlobalClosure c)] \<and>
            c \<notin> set (keys (globalEvents p3)) \<and>
            (\<forall>later data.
               filter (\<lambda>s. fst s = h1) (callbacks (ios (run N later p3))) = [(h1, GlobalClosure c)] \<and>
               h1 \<notin> set (unbound (calls (ios (run N later p3)))) \<and>
               (c, Deserialized (deserialize N data))
                 \<in> set (snd (TNSPusher_receive N data (run N later p3))))"
proof -
  define h1 where "h1 = newId N (issued (ios p))"
  define h2 where "h2 = newId N (Suc (issued (ios p)))"
  define p1 where "p1 = TNSPusher_bind N c p"
  define p2 where "p2 = TNSPusher_bind N c p1"
  define p3 where "p3 = TNSPusher_unbind c p2"
  have wf: "well_formed N p"
    unfolding reach by (rule well_formed_run) (rule well_formed_constructor)
  have dist: "distinct (keys (globalEvents p))"
    unfolding reach using distinct_run [of "TNSPusher_constructor apiKey options" N before]
    by (simp add: constructor_simps keys_simps)
  note f1 = well_formed_fresh [OF inj wf, of "issued (ios p)", simplified, folded h1_def]
  note f2 = well_formed_fresh [OF inj wf, of "Suc (issued (ios p))", simplified, folded h2_def]
  have ne: "h1 \<noteq> h2" unfolding h1_def h2_def using inj by (auto dest: injD)
  have s1: "callbacks (ios p1) = callbacks (ios p) @ [(h1, GlobalClosure c)]"
    "issued (ios p1) = Suc (issued (ios p))"
    "calls (ios p1) = calls (ios p) @ [BindCall h1]"
    "globalEvents p1 = Map_set c h1 (globalEvents p)"
    "connection_events p1 = connection_events p"
    unfolding p1_def h1_def by (simp_all add: TNSPusher_bind_simps)
  have s2: "callbacks (ios p2) = callbacks (ios p) @ [(h1, GlobalClosure c), (h2, GlobalClosure c)]"
    "issued (ios p2) = Suc (Suc (issued (ios p)))"
    "calls (ios p2) = calls (ios p) @ [BindCall h1, BindCall h2]"
    "globalEvents p2 = Map_set c h2 (Map_set c h1 (globalEvents p))"
    "connection_events p2 = connection_events p"
    unfolding p2_def by (simp_all add: TNSPusher_bind_simps s1 h2_def)
  have d2: "distinct (keys (globalEvents p2))"
    unfolding s2 by (intro distinct_Map_set dist)
  have g2: "Map_get c (globalEvents p2) = Some h2" unfolding s2 by (rule Map_get_set)
  have ho: "handles_of c (globalEvents p2) = [h2]"
    by (simp add: handles_of_Map_get [OF d2] g2)
  from TNSPusher_unbind_cases [of c p2] g2 nonempty
  have s3: "callbacks (ios p3) = filter (\<lambda>s. fst s \<noteq> h2) (callbacks (ios p2))"
    "issued (ios p3) = issued (ios p2)"
    "calls (ios p3) = calls (ios p2) @ [UnbindCall h2]"
    "globalEvents p3 = Map_delete c (globalEvents p2)"
    "connection_events p3 = connection_events p2"
    unfolding p3_def h2_def by auto
  have cb3: "callbacks (ios p3) = callbacks (ios p) @ [(h1, GlobalClosure c)]"
    unfolding s3 s2 using ne f2(4) by (simp add: filter_all)
  have ca3: "calls (ios p3) = calls (ios p) @ [BindCall h1, BindCall h2, UnbindCall h2]"
    unfolding s3 s2 by simp
  have k3: "c \<notin> set (keys (globalEvents p3))"
    unfolding s3 by (simp add: keys_Map_delete)
  have forg: "forgotten N h1 p3"
  proof (rule forgottenI)
    show "\<forall>x \<in> set (globalEvents p3). snd x \<noteq> h1"
    proof
      fix x assume x: "x \<in> set (globalEvents p3)"
      then have k: "fst x \<noteq> c" unfolding s3 by (rule in_Map_delete_key)
      from x have "x \<in> set (Map_set c h2 (Map_set c h1 (globalEvents p)))"
        unfolding s3 s2 by (rule in_Map_delete)
      then have "x = (c, h2) \<or> x \<in> set (Map_set c h1 (globalEvents p))" by (rule in_Map_set)
      with k have "x \<in> set (Map_set c h1 (globalEvents p))" by auto
      then have "x = (c, h1) \<or> x \<in> set (globalEvents p)" by (rule in_Map_set)
      with k have "x \<in> set (globalEvents p)" by auto
      with f1(1) show "snd x \<noteq> h1" by blast
    qed
    show "\<forall>x \<in> set (connection_events p3). snd x \<noteq> h1" unfolding s3 s2 using f1(2) .
    show "\<forall>s \<in> set (callbacks (ios p3)). h1 \<notin> set (captured (snd s))"
      unfolding cb3 using f1(3) by simp
    show "h1 \<notin> set (unbound (calls (ios p3)))"
      unfolding ca3 using f1(5) ne by (simp add: unbound_append)
    show "h1 \<in> newId N ` {..<issued (ios p3)}"
      unfolding s3 s2 h1_def by simp
  qed
  have only: "filter (\<lambda>s. fst s = h1) (callbacks (ios p3)) = [(h1, GlobalClosure c)]"
    unfolding cb3 using f1(4) by (simp add: filter_none)
  have later: "filter (\<lambda>s. fst s = h1) (callbacks (ios (run N later p3))) = [(h1, GlobalClosure c)] \<and>
               h1 \<notin> set (unbound (calls (ios (run N later p3)))) \<and>
               (c, Deserialized (deserialize N data))
                 \<in> set (snd (TNSPusher_receive N data (run N later p3)))" for later data
  proof -
    from forgotten_run [OF inj forg, of later]
    have a: "forgotten N h1 (run N later p3)"
      and b: "filter (\<lambda>s. fst s = h1) (callbacks (ios (run N later p3))) = [(h1, GlobalClosure c)]"
      by (simp_all add: only)
    from b have "(h1, GlobalClosure c) \<in> set (filter (\<lambda>s. fst s = h1) (callbacks (ios (run N later p3))))"
      by simp
    then have m: "(h1, GlobalClosure c) \<in> set (callbacks (ios (run N later p3)))" by simp
    from forgottenD(4) [OF a] b global_closure_invoked [OF m, of N data]
    show ?thesis by (simp add: receive_invocations)
  qed
  from ne s2(1) ho ca3 cb3 k3 later show ?thesis
    unfolding Let_def h1_def [symmetric] h2_def [symmetric] p1_def [symmetric]
      p2_def [symmetric] p3_def [symmetric]
    by blast
qed

theorem double_bind_leaks_first_subscription_witness:
  "inj (newId example_natives) \<and>
   newId example_natives (Suc (issued (ios (TNSPusher_constructor ''key'' None)))) \<noteq> [] \<and>
   callbacks (ios (TNSPusher_bind example_natives 7 (TNSPusher_bind example_natives 7
       (TNSPusher_constructor ''key'' None))))
     = [(''h'', GlobalClosure 7), (''hh'', GlobalClosure 7)] \<and>
   calls (ios (TNSPusher_unbind 7 (TNSPusher_bind example_natives 7
       (TNSPusher_bind example_natives 7 (TNSPusher_constructor ''key'' None)))))
     = [BindCall ''h'', BindCall ''hh'', UnbindCall ''hh''] \<and>
   callbacks (ios (TNSPusher_unbind 7 (TNSPusher_bind example_natives 7
       (TNSPusher_bind example_natives 7 (TNSPusher_constructor ''key'' None)))))
     = [(''h'', GlobalClosure 7)] \<and>
   (7, Deserialized (Some [(''event'', ''price-update'')]))
     \<in> set (snd (TNSPusher_receive example_natives (Some [(''event'', ''price-update'')])
          (run example_natives [Unbind 7]
             (TNSPusher_unbind 7 (TNSPusher_bind example_natives 7
                (TNSPusher_bind example_natives 7 (TNSPusher_constructor ''key'' None)))))))"
proof -
  let ?p = "TNSPusher_constructor ''key'' None"
  let ?d = "Some [(''event'', ''price-update'')]"
  have ne: "newId example_natives (Suc (issued (ios ?p))) \<noteq> []"
    by (simp add: example_natives_def)
  have r: "?p = run example_natives [] (TNSPusher_constructor ''key'' None)"
    by (simp add: run_def)
  note t = double_bind_leaks_first_subscription [OF inj_example ne r, of 7, unfolded Let_def]
  from t have a: "callbacks (ios (TNSPusher_bind example_natives 7 (TNSPusher_bind example_natives 7 ?p)))
      = callbacks (ios ?p) @ [(newId example_natives (issued (ios ?p)), GlobalClosure 7),
                              (newId example_natives (Suc (issued (ios ?p))), GlobalClosure 7)]"
    by (elim conjE)
  from t have b: "calls (ios (TNSPusher_unbind 7 (TNSPusher_bind example_natives 7
        (TNSPusher_bind example_natives 7 ?p))))
      = calls (ios ?p) @ [BindCall (newId example_natives (issued (ios ?p))),
                          BindCall (newId example_natives (Suc (issued (ios ?p)))),
                          UnbindCall (newId example_natives (Suc (issued (ios ?p))))]"
    by (elim conjE)
  from t have c: "callbacks (ios (TNSPusher_unbind 7 (TNSPusher_bind example_natives 7
        (TNSPusher_bind example_natives 7 ?p))))
      = callbacks (ios ?p) @ [(newId example_natives (issued (ios ?p)), GlobalClosure 7)]"
    by (elim conjE)
  from t have "\<forall>later data.
      filter (\<lambda>s. fst s = newId example_natives (issued (ios ?p)))
        (callbacks (ios (run example_natives later (TNSPusher_unbind 7
           (TNSPusher_bind example_natives 7 (TNSPusher_bind example_natives 7 ?p))))))
        = [(newId example_natives (issued (ios ?p)), GlobalClosure 7)] \<and>
      newId example_natives (issued (ios ?p))
        \<notin> set (unbound (calls (ios (run example_natives later (TNSPusher_unbind 7
           (TNSPusher_bind example_natives 7 (TNSPusher_bind example_natives 7 ?p))))))) \<and>
      (7, Deserialized (deserialize example_natives data))
        \<in> set (snd (TNSPusher_receive example_natives data (run example_natives later
             (TNSPusher_unbind 7 (TNSPusher_bind example_natives 7
                (TNSPusher_bind example_natives 7 ?p))))))"
    by (elim conjE)
  then have d: "(7, Deserialized (deserialize example_natives ?d))
        \<in> set (snd (TNSPusher_receive example_natives ?d (run example_natives [Unbind 7]
             (TNSPusher_unbind 7 (TNSPusher_bind example_natives 7
                (TNSPusher_bind example_natives 7 ?p))))))"
    by blast
  have e: "deserialize example_natives ?d = ?d" by (simp add: example_natives_def)
  have f: "newId example_natives (issued (ios ?p)) = ''h''"
    "newId example_natives (Suc (issued (ios ?p))) = ''hh''"
    by (simp_all add: constructor_simps example_natives_def)
  from inj_example ne a b c d show ?thesis
    unfolding e f by (simp add: constructor_simps)
qed

section \<open>Unbinding a callback that has no entry\<close>

text \<open>
  C4: when the registry of a scope has no entry for a callback, \<^verbatim>\<open>unbind\<close> with that
  callback returns the object as it was, in the client, the channel and the connection
  scope: the registry is unchanged, and so is the native object with its log of calls, so
  no native unbind call was made; the model has no failing path, as the source has no
  \<^verbatim>\<open>throw\<close>. The same holds on the connection when the callback is left out. A
  second \<^verbatim>\<open>unbind\<close> after a first one changes nothing more.
\<close>

theorem unbind_unknown_noop:
  "(c \<notin> set (keys (globalEvents p)) \<longrightarrow> TNSPusher_unbind c p = p) \<and>
   (c \<notin> set (keys (channelEvents ch)) \<longrightarrow> TNSPusherChannel_unbind e c ch = ch) \<and>
   (c \<notin> set (keys (events (snd s))) \<longrightarrow> TNSPusherConnection_unbind e (Some c) s = s) \<and>
   TNSPusherConnection_unbind e None s = s \<and>
   TNSPusher_unbind c (TNSPusher_unbind c p) = TNSPusher_unbind c p \<and>
   TNSPusherChannel_unbind e c (TNSPusherChannel_unbind e c ch) = TNSPusherChannel_unbind e c ch \<and>
   TNSPusherConnection_unbind e (Some c) (TNSPusherConnection_unbind e (Some c) s)
     = TNSPusherConnection_unbind e (Some c) s"
  by (auto simp: TNSPusher_unbind_def TNSPusherChannel_unbind_def TNSPusherConnection_unbind_def
      Map_get_None_iff[symmetric] Map_get_delete Let_def)

theorem unbind_unknown_noop_witness:
  "7 \<notin> set (keys (globalEvents (TNSPusher_bind example_natives 8 (TNSPusher_constructor ''key'' None)))) \<and>
   TNSPusher_unbind 7 (TNSPusher_bind example_natives 8 (TNSPusher_constructor ''key'' None))
     = TNSPusher_bind example_natives 8 (TNSPusher_constructor ''key'' None) \<and>
   7 \<notin> set (keys (channelEvents (TNSPusherChannel_bind example_natives ''price-update'' 8
          (fst (TNSPusher_subscribe ''order-42'' (TNSPusher_constructor ''key'' None)))))) \<and>
   TNSPusherChannel_unbind ''price-update'' 7
       (TNSPusherChannel_bind example_natives ''price-update'' 8
          (fst (TNSPusher_subscribe ''order-42'' (TNSPusher_constructor ''key'' None))))
     = TNSPusherChannel_bind example_natives ''price-update'' 8
          (fst (TNSPusher_subscribe ''order-42'' (TNSPusher_constructor ''key'' None))) \<and>
   7 \<notin> set (keys (events (snd (initWithKey ''key'', TNSPusherConnection_constructor)))) \<and>
   TNSPusherConnection_unbind ''ping'' (Some 7) (initWithKey ''key'', TNSPusherConnection_constructor)
     = (initWithKey ''key'', TNSPusherConnection_constructor)"
  using unbind_unknown_noop [of 7 "TNSPusher_bind example_natives 8 (TNSPusher_constructor ''key'' None)"
      "TNSPusherChannel_bind example_natives ''price-update'' 8
          (fst (TNSPusher_subscribe ''order-42'' (TNSPusher_constructor ''key'' None)))"
      "''price-update''" "(initWithKey ''key'', TNSPusherConnection_constructor)"]
    unbind_unknown_noop [of 7 "TNSPusher_bind example_natives 8 (TNSPusher_constructor ''key'' None)"
      "TNSPusherChannel_bind example_natives ''price-update'' 8
          (fst (TNSPusher_subscribe ''order-42'' (TNSPusher_constructor ''key'' None)))"
      "''ping''" "(initWithKey ''key'', TNSPusherConnection_constructor)"]
  by (simp add: TNSPusher_bind_simps constructor_simps keys_Map_set keys_simps
      TNSPusherChannel_bind_def bindWithEventName_def TNSPusher_subscribe_def
      subscribeWithChannelNameOnMemberAddedOnMemberRemoved_def
      TNSPusherChannel_constructor_def TNSPusherConnection_constructor_def Let_def)

section \<open>The delegate\<close>

text \<open>
  C5: \<^verbatim>\<open>_getState\<close> maps Connected, Connecting, Disconnecting and Reconnecting to the
  status of the same name and every other native value to DISCONNECTED. A state
  notification \<open>(old, new)\<close> whose owner is alive leaves the state read from the owner's
  connection facade equal to the status of \<open>new\<close>, whatever \<open>old\<close> is, and changes
  neither the native client nor a registry; for (Connecting, Connected) the state read is
  CONNECTED.
\<close>

theorem delegate_state_table:
  "getState Connected = CONNECTED \<and> getState Connecting = CONNECTING \<and>
   getState Disconnecting = DISCONNECTING \<and> getState Reconnecting = RECONNECTING \<and>
   getState Disconnected = DISCONNECTED \<and> getState (Unlisted n) = DISCONNECTED \<and>
   map_option (\<lambda>owner'. get_state (fst (get_connection owner')))
     (changedConnectionStateFromTo old new (Some owner)) = Some (Some (getState new)) \<and>
   map_option (\<lambda>owner'. get_state (fst (get_connection owner')))
     (changedConnectionStateFromTo Connecting Connected (Some owner)) = Some (Some CONNECTED) \<and>
   map_option ios (changedConnectionStateFromTo old new (Some owner)) = Some (ios owner) \<and>
   map_option globalEvents (changedConnectionStateFromTo old new (Some owner))
     = Some (globalEvents owner) \<and>
   map_option connection_events (changedConnectionStateFromTo old new (Some owner))
     = Some (connection_events owner)"
  by (simp add: changedConnectionStateFromTo_def get_connection_def get_state_def
      connection_events_def TNSPusherConnection_constructor_def
      split: option.split prod.split)

text \<open>
  C8: a notification that arrives when the weak reference to the owner yields nothing is
  dropped: there is no owner afterwards either, nothing is written, and the model has no
  failing path. This holds for the state notification and for the three other
  notifications of the delegate.
\<close>

theorem released_owner_dropped:
  "changedConnectionStateFromTo old new None = None \<and>
   debugLogWithMessage message None = None \<and>
   failedToSubscribeToChannelWithNameResponseDataError name response data err None = None \<and>
   subscribedToChannelWithName name None = None"
  by (simp add: changedConnectionStateFromTo_def debugLogWithMessage_def
      failedToSubscribeToChannelWithNameResponseDataError_def subscribedToChannelWithName_def)

section \<open>The constructor\<close>

text \<open>
  C10: when the options hold a cluster and a host, both values in the sense the source
  tests them (present and not the empty string), the native options are built with the
  host made from \<^verbatim>\<open>options.host\<close>; with the same options without the host they are
  built with the host made from \<^verbatim>\<open>options.cluster\<close>, which is the value that the
  host replaces.
\<close>

theorem host_overrides_cluster:
  assumes "cluster opt = Some c" and "c \<noteq> []" and "host opt = Some h" and "h \<noteq> []"
  shows "map_option OcHost (clientOptions (ios (TNSPusher_constructor apiKey (Some opt))))
           = Some (Some (initWithHost h)) \<and>
         map_option OcHost
           (clientOptions (ios (TNSPusher_constructor apiKey (Some (opt\<lparr>host := None\<rparr>)))))
           = Some (Some (initWithCluster c))"
  using assms by (simp add: TNSPusher_constructor_def initWithAppKeyOptions_def)

theorem host_overrides_cluster_witness:
  "map_option OcHost (clientOptions (ios (TNSPusher_constructor ''key''
      (Some \<lparr>cluster = Some ''mt1'', host = Some ''ws.example.com'', port = None,
             encrypted = Some True, autoReconnect = None, activityTimeout = None\<rparr>))))
     = Some (Some (initWithHost ''ws.example.com'')) \<and>
   map_option OcHost (clientOptions (ios (TNSPusher_constructor ''key''
      (Some \<lparr>cluster = Some ''mt1'', host = None, port = None,
             encrypted = Some True, autoReconnect = None, activityTimeout = None\<rparr>))))
     = Some (Some (initWithCluster ''mt1''))"
  using host_overrides_cluster [of "\<lparr>cluster = Some ''mt1'', host = Some ''ws.example.com'', port = None,
             encrypted = Some True, autoReconnect = None, activityTimeout = None\<rparr>"
      "''mt1''" "''ws.example.com''" "''key''"]
  by simp

section \<open>The registries in the three scopes\<close>

text \<open>
  Every registry holds at most one handle per callback, in every state a client, its
  connection or a channel can reach. On the client and on a channel, \<^verbatim>\<open>bind\<close> records
  the handle, a second \<^verbatim>\<open>bind\<close> of the same callback replaces it, and \<^verbatim>\<open>bind\<close>
  followed by \<^verbatim>\<open>unbind\<close> removes the entry and unbinds the subscription. On the
  connection \<^verbatim>\<open>bind\<close> writes nothing to the registry, so an \<^verbatim>\<open>unbind\<close> that
  follows it does nothing.
\<close>

lemma registries_one_handle_per_callback:
  "length (handles_of c (globalEvents (run N ops (TNSPusher_constructor apiKey options)))) \<le> 1 \<and>
   length (handles_of c (connection_events (run N ops (TNSPusher_constructor apiKey options)))) \<le> 1 \<and>
   length (handles_of c (channelEvents (channel_run N channel_ops (fst (TNSPusher_subscribe channel p))))) \<le> 1"
proof -
  have "distinct (keys (globalEvents (run N ops (TNSPusher_constructor apiKey options)))) \<and>
        distinct (keys (connection_events (run N ops (TNSPusher_constructor apiKey options))))"
    by (rule distinct_run) (simp_all add: constructor_simps keys_simps)
  moreover have "distinct (keys (channelEvents (channel_run N channel_ops (fst (TNSPusher_subscribe channel p)))))"
    by (rule distinct_channel_run)
       (simp add: TNSPusher_subscribe_def subscribeWithChannelNameOnMemberAddedOnMemberRemoved_def
          TNSPusherChannel_constructor_def keys_simps)
  ultimately show ?thesis by (blast intro: handles_of_distinct)
qed

lemma client_bind_then_unbind:
  assumes inj: "inj (newId N)"
    and nonempty: "newId N (issued (ios p)) \<noteq> []"
    and reach: "p = run N before (TNSPusher_constructor apiKey options)"
  shows "c \<notin> set (keys (globalEvents (TNSPusher_unbind c (TNSPusher_bind N c p)))) \<and>
         callbacks (ios (TNSPusher_unbind c (TNSPusher_bind N c p))) = callbacks (ios p) \<and>
         calls (ios (TNSPusher_unbind c (TNSPusher_bind N c p)))
           = calls (ios p) @ [BindCall (newId N (issued (ios p))), UnbindCall (newId N (issued (ios p)))]"
proof -
  define h where "h = newId N (issued (ios p))"
  define p1 where "p1 = TNSPusher_bind N c p"
  have wf: "well_formed N p"
    unfolding reach by (rule well_formed_run) (rule well_formed_constructor)
  note f = well_formed_fresh [OF inj wf, of "issued (ios p)", simplified, folded h_def]
  have s1: "callbacks (ios p1) = callbacks (ios p) @ [(h, GlobalClosure c)]"
    "calls (ios p1) = calls (ios p) @ [BindCall h]"
    "globalEvents p1 = Map_set c h (globalEvents p)"
    unfolding p1_def h_def by (simp_all add: TNSPusher_bind_simps)
  have g: "Map_get c (globalEvents p1) = Some h" unfolding s1 by (rule Map_get_set)
  from TNSPusher_unbind_cases [of c p1] g nonempty
  have s2: "callbacks (ios (TNSPusher_unbind c p1)) = filter (\<lambda>s. fst s \<noteq> h) (callbacks (ios p1))"
    "calls (ios (TNSPusher_unbind c p1)) = calls (ios p1) @ [UnbindCall h]"
    "globalEvents (TNSPusher_unbind c p1) = Map_delete c (globalEvents p1)"
    unfolding h_def by auto
  show ?thesis
    unfolding p1_def [symmetric] h_def [symmetric] s2 s1 using f(4)
    by (simp add: keys_Map_delete filter_all)
qed

lemma channel_bind_then_unbind:
  assumes "newId N (channelIssued (channel_ios ch)) \<noteq> []"
  shows "c \<notin> set (keys (channelEvents (TNSPusherChannel_unbind e c (TNSPusherChannel_bind N e c ch)))) \<and>
         (e, newId N (channelIssued (channel_ios ch)), cl)
           \<notin> set (eventHandlers (channel_ios (TNSPusherChannel_unbind e c (TNSPusherChannel_bind N e c ch)))) \<and>
         channelCalls (channel_ios (TNSPusherChannel_unbind e c (TNSPusherChannel_bind N e c ch)))
           = channelCalls (channel_ios ch)
             @ [(e, BindCall (newId N (channelIssued (channel_ios ch)))),
                (e, UnbindCall (newId N (channelIssued (channel_ios ch))))]"
  using assms
  by (simp add: TNSPusherChannel_unbind_def TNSPusherChannel_bind_def bindWithEventName_def
      unbindWithEventName_def Let_def Map_get_set keys_Map_delete)

lemma channel_second_bind_overwrites:
  "Map_get c (channelEvents (TNSPusherChannel_bind N e c (TNSPusherChannel_bind N e c ch)))
     = Some (newId N (Suc (channelIssued (channel_ios ch)))) \<and>
   length (channelEvents (TNSPusherChannel_bind N e c (TNSPusherChannel_bind N e c ch)))
     = length (channelEvents (TNSPusherChannel_bind N e c ch))"
  by (simp add: TNSPusherChannel_bind_def bindWithEventName_def Let_def Map_get_set
      length_Map_set keys_Map_set)

lemma client_second_bind_overwrites:
  "Map_get c (globalEvents (TNSPusher_bind N c (TNSPusher_bind N c p)))
     = Some (newId N (Suc (issued (ios p)))) \<and>
   length (globalEvents (TNSPusher_bind N c (TNSPusher_bind N c p)))
     = length (globalEvents (TNSPusher_bind N c p))"
  by (simp add: TNSPusher_bind_simps Map_get_set length_Map_set keys_Map_set)

lemma connection_bind_writes_no_registry:
  "events (snd (TNSPusherConnection_bind N e c s)) = events (snd s)"
  by (simp add: connection_bind_simps)

lemma connection_bind_then_unbind_general:
  assumes "c \<notin> set (keys (events (snd s)))"
  shows "TNSPusherConnection_unbind e (Some c) (TNSPusherConnection_bind N e c s)
           = TNSPusherConnection_bind N e c s"
  using assms
  by (simp add: TNSPusherConnection_unbind_def Let_def connection_bind_simps
      Map_get_None_iff [symmetric])

section \<open>Where the source departs from the specification\<close>

text \<open>
  C2: the closure that \<^verbatim>\<open>TNSPusherChannel.bind\<close> hands to the native channel writes
  \<^verbatim>\<open>called\<close> to the console and does nothing else. After
  \<^verbatim>\<open>subscribe(channel).bind(event, callback)\<close>, a delivery for that event calls no user
  callback at all, rather than calling the callback once with the deserialized payload.
\<close>

theorem channel_closure_never_calls_back:
  "PusherChannel_deliver N event data
     (channel_ios (TNSPusherChannel_bind N event callback (fst (TNSPusher_subscribe channel p))))
     = [Console ''called''] \<and>
   invocations (PusherChannel_deliver N event data
     (channel_ios (TNSPusherChannel_bind N event callback (fst (TNSPusher_subscribe channel p))))) = []"
  by (simp add: PusherChannel_deliver_def TNSPusherChannel_bind_def bindWithEventName_def
      TNSPusher_subscribe_def subscribeWithChannelNameOnMemberAddedOnMemberRemoved_def
      TNSPusherChannel_constructor_def Let_def)

text \<open>
  C1: on a new client, \<^verbatim>\<open>connection.bind('ping', 7)\<close> followed at once by
  \<^verbatim>\<open>connection.unbind('ping', 7)\<close>. The connection registry has no entry, since bind
  does not write one, so unbind makes no native call: the log holds the bind call only,
  the subscription is still bound, and a ping payload delivered afterwards calls the
  callback with \<^verbatim>\<open>"ping"\<close>.
\<close>

theorem connection_bind_then_unbind_stays_subscribed:
  "connection_events (run example_natives
       [ConnectionBind ''ping'' 7, ConnectionUnbind ''ping'' (Some 7)]
       (TNSPusher_constructor ''key'' None)) = [] \<and>
   callbacks (ios (run example_natives
       [ConnectionBind ''ping'' 7, ConnectionUnbind ''ping'' (Some 7)]
       (TNSPusher_constructor ''key'' None))) = [(''h'', ConnectionClosure ''ping'' 7 ''h'')] \<and>
   calls (ios (run example_natives
       [ConnectionBind ''ping'' 7, ConnectionUnbind ''ping'' (Some 7)]
       (TNSPusher_constructor ''key'' None))) = [BindCall ''h''] \<and>
   snd (TNSPusher_receive example_natives (Some [(''event'', ''pusher:ping'')])
      (run example_natives
         [ConnectionBind ''ping'' 7, ConnectionUnbind ''ping'' (Some 7)]
         (TNSPusher_constructor ''key'' None))) = [(7, Literal ''ping'')]"
  by (simp add: run_def on_connection_def get_connection_def TNSPusherConnection_bind_def
      TNSPusherConnection_unbind_def Pusher_bind_def TNSPusher_constructor_def initWithKey_def
      TNSPusherConnection_constructor_def connection_events_def TNSPusher_receive_def
      receive_def Pusher_deliver_def objectForKey_def example_natives_def Let_def)

text \<open>
  C6: on a new client, \<^verbatim>\<open>connection.bind('ping', 7)\<close>, a ping payload, then
  \<^verbatim>\<open>connection.bind('ping', 7)\<close> again. The delivery has recorded the first handle;
  the second bind creates a second subscription and leaves the first handle in the
  registry rather than overwriting it with the second. Without the delivery, two binds
  record no handle at all.
\<close>

theorem connection_second_bind_keeps_first_handle:
  "connection_events (run example_natives
       [ConnectionBind ''ping'' 7, Receive (Some [(''event'', ''pusher:ping'')]),
        ConnectionBind ''ping'' 7]
       (TNSPusher_constructor ''key'' None)) = [(7, ''h'')] \<and>
   callbacks (ios (run example_natives
       [ConnectionBind ''ping'' 7, Receive (Some [(''event'', ''pusher:ping'')]),
        ConnectionBind ''ping'' 7]
       (TNSPusher_constructor ''key'' None)))
     = [(''h'', ConnectionClosure ''ping'' 7 ''h''), (''hh'', ConnectionClosure ''ping'' 7 ''hh'')] \<and>
   connection_events (run example_natives
       [ConnectionBind ''ping'' 7, ConnectionBind ''ping'' 7]
       (TNSPusher_constructor ''key'' None)) = []"
  by (simp add: run_def on_connection_def get_connection_def TNSPusherConnection_bind_def
      Pusher_bind_def TNSPusher_constructor_def initWithKey_def
      TNSPusherConnection_constructor_def connection_events_def TNSPusher_receive_def
      receive_def Pusher_deliver_def objectForKey_def example_natives_def Let_def)

end
